theory Spec2Isabelle
  imports Complex_Main
begin

section \<open>Go \<^verbatim>\<open>float64\<close> values\<close>

text \<open>
  Every number of the program is a Go \<^verbatim>\<open>float64\<close>, an IEEE 754 binary64 value. A value
  is a finite number, the negative zero, an infinity or NaN; \<open>Fin 0\<close> is the positive
  zero. The finite values a \<^verbatim>\<open>float64\<close> can hold are the reals \<open>m * 2^j\<close> with
  \<open>\<bar>m\<bar> < 2^53\<close> and \<open>- 1074 \<le> j \<le> 971\<close>; every operation below returns such a value,
  an infinity, a zero or NaN (\<open>canonical\<close>). NaN stands for every NaN bit pattern.
\<close>

datatype f64 = Fin real | NegZero | PInf | NInf | NaN

subsection \<open>Rounding to nearest, ties to even\<close>

text \<open>
  \<open>round_half_even\<close> is the integer nearest to a real, the even one of two equally
  near. \<open>round_at e\<close> rounds to a multiple of \<open>2^(e - 52)\<close>, the spacing of the
  \<^verbatim>\<open>float64\<close> values of the binade \<open>[2^e, 2^(e+1))\<close>. \<open>round53\<close> rounds to 53 significant
  bits whatever the exponent is. \<open>round_real\<close> is the \<^verbatim>\<open>float64\<close> rounding of a real
  before overflow is looked at: below \<open>2^(- 1022)\<close> the spacing stays \<open>2^(- 1074)\<close>
  (subnormal numbers). \<open>round64\<close> is the result of an operation whose exact value
  is \<open>x\<close>: an infinity when the rounded value exceeds the greatest \<^verbatim>\<open>float64\<close>, and a
  zero with the sign of \<open>x\<close> when it underflows.
\<close>

definition round_half_even :: "real \<Rightarrow> int" where
  "round_half_even x =
     (let n = \<lfloor>x\<rfloor>; d = x - of_int n
      in if d < 1 / 2 then n else if 1 / 2 < d then n + 1 else if even n then n else n + 1)"

definition exponent :: "real \<Rightarrow> int" where
  "exponent x = \<lfloor>log 2 \<bar>x\<bar>\<rfloor>"

definition round_at :: "int \<Rightarrow> real \<Rightarrow> real" where
  "round_at e x = of_int (round_half_even (x / 2 powi (e - 52))) * 2 powi (e - 52)"

definition round53 :: "real \<Rightarrow> real" where
  "round53 x = round_at (exponent x) x"

definition round_real :: "real \<Rightarrow> real" where
  "round_real x = round_at (max (- 1022) (exponent x)) x"

definition MaxFloat64 :: real where
  "MaxFloat64 = (2 ^ 53 - 1) * 2 ^ 971"

definition round64 :: "real \<Rightarrow> f64" where
  "round64 x =
     (let r = round_real x
      in if MaxFloat64 < r then PInf
         else if r < - MaxFloat64 then NInf
         else if r = 0 \<and> x < 0 then NegZero
         else Fin r)"

text \<open>The conversion of a constant of the source to \<^verbatim>\<open>float64\<close>.\<close>

definition f64_const :: "real \<Rightarrow> f64" where
  "f64_const x = round64 x"

definition canonical :: "f64 \<Rightarrow> bool" where
  "canonical x = (case x of Fin r \<Rightarrow> round_real r = r \<and> \<bar>r\<bar> \<le> MaxFloat64 | _ \<Rightarrow> True)"

subsection \<open>Arithmetic\<close>

fun is_nan :: "f64 \<Rightarrow> bool" where
  "is_nan NaN = True"
| "is_nan _ = False"

fun is_inf :: "f64 \<Rightarrow> bool" where
  "is_inf PInf = True"
| "is_inf NInf = True"
| "is_inf _ = False"

text \<open>\<open>is_zero x\<close> is Go's \<^verbatim>\<open>x == 0\<close>: it holds of both zeros.\<close>

fun is_zero :: "f64 \<Rightarrow> bool" where
  "is_zero (Fin a) = (a = 0)"
| "is_zero NegZero = True"
| "is_zero _ = False"

fun is_finite :: "f64 \<Rightarrow> bool" where
  "is_finite (Fin a) = True"
| "is_finite NegZero = True"
| "is_finite _ = False"

text \<open>The sign bit (\<open>True\<close> for negative) and the real value of a finite \<^verbatim>\<open>float64\<close>.\<close>

fun sign_bit :: "f64 \<Rightarrow> bool" where
  "sign_bit (Fin a) = (a < 0)"
| "sign_bit NegZero = True"
| "sign_bit NInf = True"
| "sign_bit _ = False"

fun val :: "f64 \<Rightarrow> real" where
  "val (Fin a) = a"
| "val _ = 0"

definition f64_zero :: "bool \<Rightarrow> f64" where
  "f64_zero negative = (if negative then NegZero else Fin 0)"

definition f64_inf :: "bool \<Rightarrow> f64" where
  "f64_inf negative = (if negative then NInf else PInf)"

text \<open>
  Addition. An exact sum of zero is the positive zero, except that the sum of two
  negative zeros is the negative zero; opposite infinities give NaN.
\<close>

fun f64_add :: "f64 \<Rightarrow> f64 \<Rightarrow> f64" where
  "f64_add (Fin a) (Fin b) = (if a + b = 0 then Fin 0 else round64 (a + b))"
| "f64_add NegZero NegZero = NegZero"
| "f64_add NegZero (Fin b) = (if b = 0 then Fin 0 else round64 b)"
| "f64_add (Fin a) NegZero = (if a = 0 then Fin 0 else round64 a)"
| "f64_add NaN _ = NaN"
| "f64_add _ NaN = NaN"
| "f64_add PInf NInf = NaN"
| "f64_add NInf PInf = NaN"
| "f64_add PInf _ = PInf"
| "f64_add _ PInf = PInf"
| "f64_add NInf _ = NInf"
| "f64_add _ NInf = NInf"

fun f64_neg :: "f64 \<Rightarrow> f64" where
  "f64_neg (Fin a) = (if a = 0 then NegZero else Fin (- a))"
| "f64_neg NegZero = Fin 0"
| "f64_neg PInf = NInf"
| "f64_neg NInf = PInf"
| "f64_neg NaN = NaN"

text \<open>Subtraction is the addition of the negated operand, as in IEEE 754.\<close>

definition f64_sub :: "f64 \<Rightarrow> f64 \<Rightarrow> f64" where
  "f64_sub x y = f64_add x (f64_neg y)"

text \<open>
  Multiplication and division. The sign of the result is the exclusive or of the signs
  of the operands, also for a zero and an infinity. \<open>Inf * 0\<close>, \<open>Inf / Inf\<close> and
  \<open>0 / 0\<close> are NaN; a finite nonzero number divided by a zero is an infinity. Go never
  panics on a \<^verbatim>\<open>float64\<close> division by zero.
\<close>

definition f64_mul :: "f64 \<Rightarrow> f64 \<Rightarrow> f64" where
  "f64_mul x y =
     (if is_nan x \<or> is_nan y then NaN
      else if is_inf x \<or> is_inf y then
        (if is_zero x \<or> is_zero y then NaN else f64_inf (sign_bit x \<noteq> sign_bit y))
      else if val x * val y = 0 then f64_zero (sign_bit x \<noteq> sign_bit y)
      else round64 (val x * val y))"

definition f64_div :: "f64 \<Rightarrow> f64 \<Rightarrow> f64" where
  "f64_div x y =
     (if is_nan x \<or> is_nan y then NaN
      else if is_inf x then (if is_inf y then NaN else f64_inf (sign_bit x \<noteq> sign_bit y))
      else if is_inf y then f64_zero (sign_bit x \<noteq> sign_bit y)
      else if is_zero y then (if is_zero x then NaN else f64_inf (sign_bit x \<noteq> sign_bit y))
      else if is_zero x then f64_zero (sign_bit x \<noteq> sign_bit y)
      else round64 (val x / val y))"

text \<open>
  \<^verbatim>\<open>math.Sqrt\<close> is the correctly rounded square root: NaN for a negative argument,
  the argument itself for a zero and for \<open>+Inf\<close>.
\<close>

fun math_Sqrt :: "f64 \<Rightarrow> f64" where
  "math_Sqrt (Fin a) = (if a < 0 then NaN else if a = 0 then Fin 0 else round64 (sqrt a))"
| "math_Sqrt NegZero = NegZero"
| "math_Sqrt PInf = PInf"
| "math_Sqrt NInf = NaN"
| "math_Sqrt NaN = NaN"

text \<open>
  \<^verbatim>\<open>math.Pow(x, 2)\<close>: the source raises to no other exponent than the constant 2.
  For a finite nonzero \<open>x\<close> Go's \<^verbatim>\<open>Pow\<close> splits \<open>x\<close> into a fraction in \<open>[1/2, 1)\<close> and a
  power of two, squares the fraction as a \<^verbatim>\<open>float64\<close> (one rounding to 53 bits) and
  scales the square with \<^verbatim>\<open>Ldexp\<close>, which rounds again when the result is subnormal
  and gives an infinity when it is too large. A zero gives \<open>+0\<close>, an infinity \<open>+Inf\<close>.
\<close>

fun math_Pow_2 :: "f64 \<Rightarrow> f64" where
  "math_Pow_2 (Fin a) = (if a = 0 then Fin 0 else round64 (round53 (a * a)))"
| "math_Pow_2 NegZero = Fin 0"
| "math_Pow_2 PInf = PInf"
| "math_Pow_2 NInf = PInf"
| "math_Pow_2 NaN = NaN"

text \<open>
  \<^verbatim>\<open>math.Atan2(y, x)\<close>, case by case as Go's \<^verbatim>\<open>atan2\<close> has it. \<^verbatim>\<open>Copysign(c, y)\<close> of a
  positive constant \<open>c\<close> is \<open>copysign_const\<close>; \<^verbatim>\<open>q <= 0\<close> is \<open>f64_le_zero\<close>. The library
  function \<^verbatim>\<open>math.Atan\<close>, which the last case calls, is not part of the repository and
  Go does not say how it rounds: it is the parameter \<open>Atan\<close>.
\<close>

definition copysign_const :: "real \<Rightarrow> f64 \<Rightarrow> f64" where
  "copysign_const c y = (if sign_bit y then f64_neg (f64_const c) else f64_const c)"

text \<open>Go's comparison \<^verbatim>\<open>x >= 0\<close>: it holds of both zeros and is false of NaN.\<close>

fun f64_ge_zero :: "f64 \<Rightarrow> bool" where
  "f64_ge_zero (Fin a) = (0 \<le> a)"
| "f64_ge_zero NegZero = True"
| "f64_ge_zero PInf = True"
| "f64_ge_zero _ = False"

fun f64_le_zero :: "f64 \<Rightarrow> bool" where
  "f64_le_zero (Fin a) = (a \<le> 0)"
| "f64_le_zero NegZero = True"
| "f64_le_zero NInf = True"
| "f64_le_zero _ = False"

definition math_Atan2 :: "(f64 \<Rightarrow> f64) \<Rightarrow> f64 \<Rightarrow> f64 \<Rightarrow> f64" where
  "math_Atan2 Atan y x =
     (if is_nan x \<or> is_nan y then NaN
      else if is_zero y then
        (if \<not> sign_bit x then f64_zero (sign_bit y) else copysign_const pi y)
      else if is_zero x then copysign_const (pi / 2) y
      else if is_inf x then
        (if x = PInf then
           (if is_inf y then copysign_const (pi / 4) y else f64_zero (sign_bit y))
         else
           (if is_inf y then copysign_const (3 * pi / 4) y else copysign_const pi y))
      else if is_inf y then copysign_const (pi / 2) y
      else
        (let q = Atan (f64_div y x)
         in if val x < 0 then
              (if f64_le_zero q then f64_add q (f64_const pi) else f64_sub q (f64_const pi))
            else q))"

text \<open>
  The conversion \<^verbatim>\<open>int(x)\<close> of a \<^verbatim>\<open>float64\<close> to the 64-bit \<^verbatim>\<open>int\<close>: the fraction is
  discarded (truncation towards zero). For a value that does not fit, and for a
  non-finite one, Go leaves the result to the implementation; the model takes what the
  amd64 conversion instruction returns, the least \<^verbatim>\<open>int\<close>.
\<close>

definition MinInt64 :: int where
  "MinInt64 = - (2 ^ 63)"

definition MaxInt64 :: int where
  "MaxInt64 = 2 ^ 63 - 1"

definition trunc_real :: "real \<Rightarrow> int" where
  "trunc_real x = (if 0 \<le> x then \<lfloor>x\<rfloor> else \<lceil>x\<rceil>)"

fun go_int :: "f64 \<Rightarrow> int" where
  "go_int (Fin x) =
     (if MinInt64 \<le> trunc_real x \<and> trunc_real x \<le> MaxInt64 then trunc_real x
      else MinInt64)"
| "go_int NegZero = 0"
| "go_int PInf = MinInt64"
| "go_int NInf = MinInt64"
| "go_int NaN = MinInt64"

section \<open>Package \<^verbatim>\<open>simulation\<close>: the PID controller and the first-order lag\<close>

text \<open>
  \<^verbatim>\<open>type PID struct { Kp, Ki, Kd float64; integral float64; previouserror_pid float64 }\<close>.
  Package \<^verbatim>\<open>main\<close> declares the same struct again, field for field; both are this record.
\<close>

record PID =
  Kp :: f64
  Ki :: f64
  Kd :: f64
  integral :: f64
  previouserror_pid :: f64

text \<open>\<^verbatim>\<open>NewPID\<close> sets the gains; the two state fields keep Go's zero value.\<close>

definition NewPID :: "f64 \<Rightarrow> f64 \<Rightarrow> f64 \<Rightarrow> PID" where
  "NewPID kp ki kd =
     \<lparr>Kp = kp, Ki = ki, Kd = kd, integral = Fin 0, previouserror_pid = Fin 0\<rparr>"

text \<open>
  \<^verbatim>\<open>func (pid *PID) Compute(setpoint, currentValue, dt float64) float64\<close> mutates the
  controller through its pointer receiver: the model returns the output together with
  the controller after the call. Go parses \<^verbatim>\<open>pid.Kd * (e - prev) / dt\<close> from the left,
  as \<^verbatim>\<open>(pid.Kd * (e - prev)) / dt\<close>.
\<close>

definition Compute :: "PID \<Rightarrow> f64 \<Rightarrow> f64 \<Rightarrow> f64 \<Rightarrow> f64 \<times> PID" where
  "Compute pid setpoint currentValue dt =
     (let error_pid = f64_sub setpoint currentValue;
          proportional = f64_mul (Kp pid) error_pid;
          pid1 = pid\<lparr>integral := f64_add (integral pid) (f64_mul error_pid dt)\<rparr>;
          integral_term = f64_mul (Ki pid1) (integral pid1);
          derivative =
            f64_div (f64_mul (Kd pid1) (f64_sub error_pid (previouserror_pid pid1))) dt;
          pid2 = pid1\<lparr>previouserror_pid := error_pid\<rparr>;
          output = f64_add (f64_add proportional integral_term) derivative
      in (output, pid2))"

text \<open>\<^verbatim>\<open>DynamicResponse\<close>: one forward-Euler step of the first-order lag.\<close>

definition DynamicResponse :: "f64 \<Rightarrow> f64 \<Rightarrow> f64 \<Rightarrow> f64 \<Rightarrow> f64 \<Rightarrow> f64" where
  "DynamicResponse un yn dt Tau K =
     f64_add (f64_mul (f64_div dt Tau) (f64_sub (f64_mul K un) yn)) yn"

text \<open>
  The loop of \<^verbatim>\<open>Simulation\<close>, \<^verbatim>\<open>for k := 1; k <= int(N); k++\<close>, as a recursion on the
  counter \<open>k\<close> with the bound \<open>n = int(N)\<close>. The state of the loop is the controller
  and the two slices; \<^verbatim>\<open>measure[len(measure)-1]\<close> and \<^verbatim>\<open>T[len(T)-1]\<close> read the last
  element: both slices start with one element and only grow, so the index is always
  in range. The counter is an unbounded integer: it stops at \<open>n + 1\<close>, which fits an
  \<^verbatim>\<open>int\<close> for every \<^verbatim>\<open>float64\<close> \<open>N\<close> (the greatest \<^verbatim>\<open>float64\<close> below \<open>2^63\<close> is
  \<open>2^63 - 1024\<close>), so \<^verbatim>\<open>k++\<close> never wraps around. The slice \<^verbatim>\<open>measure\<close> is
  \<open>measure_y\<close> here, and the parameters \<^verbatim>\<open>Ki\<close>, \<^verbatim>\<open>Kd\<close> of \<^verbatim>\<open>Simulation\<close> are \<open>Ki'\<close>,
  \<open>Kd'\<close>, since the plain names are taken (by the measure functions of HOL and by
  the fields of the controller).
\<close>

function Simulation_loop ::
  "int \<Rightarrow> int \<Rightarrow> f64 \<Rightarrow> f64 \<Rightarrow> f64 \<Rightarrow> f64 \<Rightarrow> PID \<Rightarrow> f64 list \<Rightarrow> f64 list
     \<Rightarrow> f64 list \<times> f64 list" where
  "Simulation_loop k n Sp Tau K dt pid measure_y T =
     (if k \<le> n then
        (let (un, pid') = Compute pid Sp (last measure_y) dt;
             ynn = DynamicResponse un (last measure_y) dt Tau K
         in Simulation_loop (k + 1) n Sp Tau K dt pid'
              (measure_y @ [ynn]) (T @ [f64_add (last T) dt]))
      else (T, measure_y))"
  by pat_completeness auto
termination
  by (relation "measure (\<lambda>(k, n, Sp, Tau, K, dt, pid, measure_y, T). nat (n + 1 - k))") auto

text \<open>
  \<^verbatim>\<open>func Simulation(Sp, Tau, K, P, Ki, Kd, dt, N float64) ([]float64, []float64)\<close>
  returns the time axis first and the output second. It has no error result and no
  statement that can panic.
\<close>

definition Simulation ::
  "f64 \<Rightarrow> f64 \<Rightarrow> f64 \<Rightarrow> f64 \<Rightarrow> f64 \<Rightarrow> f64 \<Rightarrow> f64 \<Rightarrow> f64 \<Rightarrow> f64 list \<times> f64 list" where
  "Simulation Sp Tau K P Ki' Kd' dt N =
     Simulation_loop 1 (go_int N) Sp Tau K dt (NewPID P Ki' Kd') [Fin 0] [Fin 0]"

section \<open>Package \<^verbatim>\<open>main\<close>: the electrical system and its closed loop\<close>

text \<open>
  The controller of package \<^verbatim>\<open>main\<close>:
  \<^verbatim>\<open>func (pid *PID) Compute(setpoint, currentValue float64) float64\<close>, with no step
  size: the error is added to the integral as it is and the derivative is the plain
  difference of errors.
\<close>

definition main_Compute :: "PID \<Rightarrow> f64 \<Rightarrow> f64 \<Rightarrow> f64 \<times> PID" where
  "main_Compute pid setpoint currentValue =
     (let error_pid = f64_sub setpoint currentValue;
          proportional = f64_mul (Kp pid) error_pid;
          pid1 = pid\<lparr>integral := f64_add (integral pid) error_pid\<rparr>;
          integral_term = f64_mul (Ki pid1) (integral pid1);
          derivative = f64_mul (Kd pid1) (f64_sub error_pid (previouserror_pid pid1));
          pid2 = pid1\<lparr>previouserror_pid := error_pid\<rparr>;
          output = f64_add (f64_add proportional integral_term) derivative
      in (output, pid2))"

record ElectricalSystem =
  L :: f64
  C :: f64
  R :: f64
  f :: f64
  UPoc :: f64

text \<open>
  \<^verbatim>\<open>ComputeImpedance\<close> divides by \<^verbatim>\<open>2 * math.Pi * sys.f * sys.C\<close> without looking at
  \<^verbatim>\<open>sys.C\<close>. The constant \<^verbatim>\<open>2 * math.Pi\<close> is folded by the compiler and converted to
  \<^verbatim>\<open>float64\<close> where it meets \<^verbatim>\<open>sys.f\<close>. The first argument is \<^verbatim>\<open>math.Atan\<close> (see
  \<open>math_Atan2\<close>).
\<close>

definition ComputeImpedance :: "(f64 \<Rightarrow> f64) \<Rightarrow> ElectricalSystem \<Rightarrow> f64 \<times> f64" where
  "ComputeImpedance Atan sys =
     (let X_L = f64_mul (f64_mul (f64_const (2 * pi)) (f sys)) (L sys);
          X_C = f64_div (Fin 1) (f64_mul (f64_mul (f64_const (2 * pi)) (f sys)) (C sys));
          Z = math_Sqrt (f64_add (math_Pow_2 (R sys)) (math_Pow_2 (f64_sub X_L X_C)));
          theta = math_Atan2 Atan (f64_sub X_L X_C) (R sys)
      in (Z, theta))"

text \<open>\<^verbatim>\<open>ComputeReactivePowerSys\<close> tests \<^verbatim>\<open>sys.C == 0\<close> before it divides.\<close>

definition ComputeReactivePowerSys :: "ElectricalSystem \<Rightarrow> f64 \<Rightarrow> f64" where
  "ComputeReactivePowerSys sys I =
     (let X_L = f64_mul (f64_mul (f64_const (2 * pi)) (f sys)) (L sys);
          X_C = (if is_zero (C sys) then Fin 0
                 else f64_div (Fin 1) (f64_mul (f64_mul (f64_const (2 * pi)) (f sys)) (C sys)));
          Q_L = f64_mul (math_Pow_2 I) X_L;
          Q_C = f64_mul (math_Pow_2 I) X_C;
          Q = f64_sub Q_L Q_C
      in Q)"

text \<open>
  \<^verbatim>\<open>ComputeS\<close> and \<^verbatim>\<open>ComputeQPoc\<close> also print their result on the standard output,
  which the model leaves out.
\<close>

definition ComputeS :: "ElectricalSystem \<Rightarrow> f64 \<Rightarrow> f64 \<Rightarrow> f64" where
  "ComputeS sys Pond Qond = math_Sqrt (f64_add (math_Pow_2 Pond) (math_Pow_2 Qond))"

definition ComputeQPoc :: "ElectricalSystem \<Rightarrow> f64 \<Rightarrow> f64 \<Rightarrow> f64" where
  "ComputeQPoc sys Pond Qond =
     (let S = ComputeS sys Pond Qond;
          I = f64_div S (UPoc sys);
          Qsys = ComputeReactivePowerSys sys I;
          Qpoc = f64_add Qond Qsys
      in Qpoc)"

text \<open>
  \<^verbatim>\<open>func Simulation(Pond, Qond float64) float64\<close> of package \<^verbatim>\<open>main\<close>: the reactive
  power at the point of connection of the system it builds from constants.
\<close>

definition main_sys :: ElectricalSystem where
  "main_sys =
     \<lparr>L = f64_const (2.8 / 1000), C = Fin 0, R = Fin 0, f = Fin 50, UPoc = Fin 6700\<rparr>"

definition main_Simulation :: "f64 \<Rightarrow> f64 \<Rightarrow> f64" where
  "main_Simulation Pond Qond = ComputeQPoc main_sys Pond Qond"

text \<open>
  The loop of \<^verbatim>\<open>main\<close>, \<^verbatim>\<open>for t := 1; t < numIterations; t++\<close>. Each pass appends the
  controller's output to \<^verbatim>\<open>Qond\<close>, the plant's answer to it to \<^verbatim>\<open>QPoc\<close>, and the next
  instant to \<^verbatim>\<open>T\<close>. The result is \<open>(T, Qond, QPoc)\<close>. \<open>main_body\<close> is the body of
  \<^verbatim>\<open>main\<close> up to the two calls of the plotting function \<^verbatim>\<open>Line\<close>, with the constants
  it assigns to its locals (\<^verbatim>\<open>QPoc_ref\<close>, \<^verbatim>\<open>Pond\<close>, the three gains, \<^verbatim>\<open>numIterations\<close>,
  \<^verbatim>\<open>dt\<close>) as arguments; \<open>main_run\<close> gives them the values \<^verbatim>\<open>main\<close> does.
\<close>

function main_loop ::
  "int \<Rightarrow> int \<Rightarrow> f64 \<Rightarrow> f64 \<Rightarrow> f64 \<Rightarrow> PID \<Rightarrow> f64 list \<Rightarrow> f64 list \<Rightarrow> f64 list
     \<Rightarrow> f64 list \<times> f64 list \<times> f64 list" where
  "main_loop t numIterations QPoc_ref Pond dt pid Qond QPoc T =
     (if t < numIterations then
        (let (u, pid') = main_Compute pid QPoc_ref (last QPoc);
             Qond' = Qond @ [u];
             QPoc' = QPoc @ [main_Simulation Pond (last Qond')];
             newT = f64_add (last T) dt
         in main_loop (t + 1) numIterations QPoc_ref Pond dt pid' Qond' QPoc' (T @ [newT]))
      else (T, Qond, QPoc))"
  by pat_completeness auto
termination
  by (relation "measure (\<lambda>(t, numIterations, QPoc_ref, Pond, dt, pid, Qond, QPoc, T).
                    nat (numIterations - t))") auto

definition main_body ::
  "f64 \<Rightarrow> f64 \<Rightarrow> f64 \<Rightarrow> f64 \<Rightarrow> f64 \<Rightarrow> int \<Rightarrow> f64 \<Rightarrow> f64 list \<times> f64 list \<times> f64 list" where
  "main_body QPoc_ref Pond kp ki kd numIterations dt =
     main_loop 1 numIterations QPoc_ref Pond dt (NewPID kp ki kd)
       [Fin 0] [main_Simulation Pond (Fin 0)] [Fin 0]"

definition main_run :: "f64 list \<times> f64 list \<times> f64 list" where
  "main_run =
     main_body (Fin 0) (Fin 1000000) (f64_const (1 / 100)) (f64_const (1 / 10)) (Fin 0) 1000
       (f64_const (1 / 1000))"

section \<open>Auxiliary notions\<close>

text \<open>
  The instants of a time axis with step \<open>dt\<close>: 0, then each the \<^verbatim>\<open>float64\<close> sum of its
  predecessor and \<open>dt\<close>.
\<close>

fun instant :: "f64 \<Rightarrow> nat \<Rightarrow> f64" where
  "instant dt 0 = Fin 0"
| "instant dt (Suc k) = f64_add (instant dt k) dt"

definition time_axis :: "f64 \<Rightarrow> nat \<Rightarrow> f64 list" where
  "time_axis dt m = map (instant dt) [0..<m]"

text \<open>
  A sequence of calls on one controller, each call a pair \<open>(setpoint, currentValue)\<close>:
  the outputs in order and the controller after the last call. \<open>Compute_calls\<close> calls
  \<open>Compute\<close> of package \<^verbatim>\<open>simulation\<close> with one step size \<open>dt\<close> throughout,
  \<open>main_Compute_calls\<close> calls \<open>Compute\<close> of package \<^verbatim>\<open>main\<close>.
\<close>

fun Compute_calls :: "PID \<Rightarrow> f64 \<Rightarrow> (f64 \<times> f64) list \<Rightarrow> f64 list \<times> PID" where
  "Compute_calls pid dt [] = ([], pid)"
| "Compute_calls pid dt ((setpoint, currentValue) # calls) =
     (let (out, pid') = Compute pid setpoint currentValue dt;
          (outs, pid'') = Compute_calls pid' dt calls
      in (out # outs, pid''))"

fun main_Compute_calls :: "PID \<Rightarrow> (f64 \<times> f64) list \<Rightarrow> f64 list \<times> PID" where
  "main_Compute_calls pid [] = ([], pid)"
| "main_Compute_calls pid ((setpoint, currentValue) # calls) =
     (let (out, pid') = main_Compute pid setpoint currentValue;
          (outs, pid'') = main_Compute_calls pid' calls
      in (out # outs, pid''))"

text \<open>
  \<open>within_bound b x\<close>: the \<^verbatim>\<open>float64\<close> \<open>x\<close> is finite (a number or a zero, no infinity and no
  NaN) and its magnitude is at most \<open>b\<close>.
\<close>

definition within_bound :: "real \<Rightarrow> f64 \<Rightarrow> bool" where
  "within_bound b x = (is_finite x \<and> \<bar>val x\<bar> \<le> b)"

text \<open>
  The comparison \<^verbatim>\<open>==\<close> of Go on \<^verbatim>\<open>float64\<close>: a NaN is equal to nothing, itself
  included, and the two zeros are equal.
\<close>

fun f64_eq :: "f64 \<Rightarrow> f64 \<Rightarrow> bool" where
  "f64_eq NaN y = False"
| "f64_eq x NaN = False"
| "f64_eq x y = (is_zero x \<and> is_zero y \<or> x = y)"

text \<open>
  Two samples agree when \<^verbatim>\<open>==\<close> holds of them or both are NaN.
\<close>

definition same_sample :: "f64 \<Rightarrow> f64 \<Rightarrow> bool" where
  "same_sample a b = (f64_eq a b \<or> is_nan a \<and> is_nan b)"

section \<open>The controller as an object of the heap\<close>

text \<open>
  \<^verbatim>\<open>NewPID\<close> returns a pointer, \<^verbatim>\<open>&PID{...}\<close>, and \<^verbatim>\<open>Compute\<close> writes through its pointer
  receiver. Here the controllers live in a heap, a list of objects addressed by their
  position, which every function takes and returns: \<^verbatim>\<open>NewPID\<close> allocates at the first
  free address and leaves the objects already there as they are, \<^verbatim>\<open>Compute\<close> reads and
  writes the object at the address it is given, and \<^verbatim>\<open>Simulation\<close> runs its loop on the
  address it got from \<^verbatim>\<open>NewPID\<close>. The package has no variable at package level, no
  clock and no random source, and the two slices of \<^verbatim>\<open>Simulation\<close> are local: the heap
  of controllers is all the state that outlives a call.
\<close>

type_synonym heap = "PID list"

definition NewPID_h :: "f64 \<Rightarrow> f64 \<Rightarrow> f64 \<Rightarrow> heap \<Rightarrow> nat \<times> heap" where
  "NewPID_h kp ki kd h = (length h, h @ [NewPID kp ki kd])"

definition Compute_h :: "nat \<Rightarrow> f64 \<Rightarrow> f64 \<Rightarrow> f64 \<Rightarrow> heap \<Rightarrow> f64 \<times> heap" where
  "Compute_h p setpoint currentValue dt h =
     (let (output, pid') = Compute (h ! p) setpoint currentValue dt
      in (output, h[p := pid']))"

function Simulation_loop_h ::
  "int \<Rightarrow> int \<Rightarrow> f64 \<Rightarrow> f64 \<Rightarrow> f64 \<Rightarrow> f64 \<Rightarrow> nat \<Rightarrow> f64 list \<Rightarrow> f64 list \<Rightarrow> heap
     \<Rightarrow> (f64 list \<times> f64 list) \<times> heap" where
  "Simulation_loop_h k n Sp Tau K dt p measure_y T h =
     (if k \<le> n then
        (let (un, h') = Compute_h p Sp (last measure_y) dt h;
             ynn = DynamicResponse un (last measure_y) dt Tau K
         in Simulation_loop_h (k + 1) n Sp Tau K dt p
              (measure_y @ [ynn]) (T @ [f64_add (last T) dt]) h')
      else ((T, measure_y), h))"
  by pat_completeness auto
termination
  by (relation "measure (\<lambda>(k, n, Sp, Tau, K, dt, p, measure_y, T, h). nat (n + 1 - k))") auto

definition Simulation_h ::
  "f64 \<Rightarrow> f64 \<Rightarrow> f64 \<Rightarrow> f64 \<Rightarrow> f64 \<Rightarrow> f64 \<Rightarrow> f64 \<Rightarrow> f64 \<Rightarrow> heap
     \<Rightarrow> (f64 list \<times> f64 list) \<times> heap" where
  "Simulation_h Sp Tau K P Ki' Kd' dt N h =
     (let (p, h1) = NewPID_h P Ki' Kd' h
      in Simulation_loop_h 1 (go_int N) Sp Tau K dt p [Fin 0] [Fin 0] h1)"

text \<open>
  Two invocations of \<^verbatim>\<open>Simulation\<close> one after the other, the second on the heap the
  first has left, with the controller of the first still in it.
\<close>

definition Simulation_twice ::
  "f64 \<Rightarrow> f64 \<Rightarrow> f64 \<Rightarrow> f64 \<Rightarrow> f64 \<Rightarrow> f64 \<Rightarrow> f64 \<Rightarrow> f64 \<Rightarrow> heap
     \<Rightarrow> (f64 list \<times> f64 list) \<times> (f64 list \<times> f64 list)" where
  "Simulation_twice Sp Tau K P Ki' Kd' dt N h =
     (let (first, h1) = Simulation_h Sp Tau K P Ki' Kd' dt N h;
          (second, h2) = Simulation_h Sp Tau K P Ki' Kd' dt N h1
      in (first, second))"

section \<open>Rounding\<close>

lemma powr_powi: "2 powr (real_of_int k) = (2::real) powi k"
  by (simp add: powr_real_of_int power_int_def power_one_over inverse_eq_divide)

lemma exponent_eqI:
  assumes "2 powi e \<le> \<bar>x\<bar>" "\<bar>x\<bar> < 2 powi (e + 1)"
  shows "exponent x = e"
proof -
  have "(0::real) < 2 powi e" by simp
  with assms(1) have pos: "0 < \<bar>x\<bar>" by linarith
  have "2 powr (real_of_int e) \<le> \<bar>x\<bar> \<and> \<bar>x\<bar> < 2 powr (real_of_int (e + 1))"
    using assms by (simp only: powr_powi)
  then have "2 powr (real_of_int e) \<le> \<bar>x\<bar> \<and> \<bar>x\<bar> < 2 powr (real_of_int e + 1)"
    by simp
  with floor_log_eq_powr_iff [OF pos, of 2 e] show ?thesis
    by (simp add: exponent_def)
qed

lemma exponent_bounds:
  assumes "x \<noteq> 0"
  shows "2 powi (exponent x) \<le> \<bar>x\<bar>" and "\<bar>x\<bar> < 2 powi (exponent x + 1)"
proof -
  have pos: "0 < \<bar>x\<bar>" using assms by simp
  from floor_log_eq_powr_iff [OF pos, of 2 "exponent x"]
  have *: "2 powr (real_of_int (exponent x)) \<le> \<bar>x\<bar> \<and> \<bar>x\<bar> < 2 powr (real_of_int (exponent x) + 1)"
    by (simp add: exponent_def)
  then have "2 powr (real_of_int (exponent x)) \<le> \<bar>x\<bar>"
    and "\<bar>x\<bar> < 2 powr (real_of_int (exponent x + 1))"
    by simp_all
  then show "2 powi (exponent x) \<le> \<bar>x\<bar>" and "\<bar>x\<bar> < 2 powi (exponent x + 1)"
    by (simp_all only: powr_powi)
qed

lemma rhe_of_int [simp]: "round_half_even (of_int n) = n"
  by (simp add: round_half_even_def)

lemma rhe_le:
  assumes "x \<le> of_int b"
  shows "round_half_even x \<le> b"
proof (cases "x = of_int b")
  case True
  then show ?thesis by simp
next
  case False
  with assms have "x < of_int b" by simp
  then have "\<lfloor>x\<rfloor> < b" by (simp add: floor_less_iff)
  then have "\<lfloor>x\<rfloor> + 1 \<le> b" by simp
  then show ?thesis
    by (auto simp: round_half_even_def Let_def)
qed

lemma rhe_ge:
  assumes "of_int a \<le> x"
  shows "a \<le> round_half_even x"
proof -
  from assms have "a \<le> \<lfloor>x\<rfloor>" by (simp add: le_floor_iff)
  then show ?thesis
    by (auto simp: round_half_even_def Let_def)
qed

lemma floor_minus_nonint:
  assumes "x \<notin> \<int>"
  shows "\<lfloor>- x\<rfloor> = - \<lfloor>x\<rfloor> - 1"
proof (rule floor_unique)
  have ne: "of_int \<lfloor>x\<rfloor> \<noteq> x" using assms by (metis Ints_of_int)
  have le: "of_int \<lfloor>x\<rfloor> \<le> x" "x < of_int \<lfloor>x\<rfloor> + 1" by linarith+
  from ne le(1) have lt: "of_int \<lfloor>x\<rfloor> < x" by (rule order.not_eq_order_implies_strict)
  from le(2) show "of_int (- \<lfloor>x\<rfloor> - 1) \<le> - x" by simp
  from lt show "- x < of_int (- \<lfloor>x\<rfloor> - 1) + 1" by simp
qed

lemma rhe_minus: "round_half_even (- x) = - round_half_even x"
proof (cases "x \<in> \<int>")
  case True
  then obtain n where "x = of_int n" by (auto elim: Ints_cases)
  then show ?thesis by (simp flip: of_int_minus)
next
  case False
  have le: "of_int \<lfloor>x\<rfloor> \<le> x" "x < of_int \<lfloor>x\<rfloor> + 1" by linarith+
  show ?thesis
    unfolding round_half_even_def Let_def floor_minus_nonint [OF False]
    using le by (auto simp: algebra_simps)
qed


lemma pow2_less_iff: "(2::real) powi m < 2 powi n \<longleftrightarrow> m < n"
proof
  assume "(2::real) powi m < 2 powi n"
  show "m < n"
  proof (rule ccontr)
    assume "\<not> m < n"
    then have "n \<le> m" by simp
    then have "(2::real) powi n \<le> 2 powi m" by (intro power_int_increasing) simp_all
    with \<open>(2::real) powi m < 2 powi n\<close> show False by simp
  qed
next
  assume "m < n"
  then show "(2::real) powi m < 2 powi n" by (intro power_int_strict_increasing) simp_all
qed

lemma pow2_le_iff: "(2::real) powi m \<le> 2 powi n \<longleftrightarrow> m \<le> n"
  using pow2_less_iff [of n m] by (simp add: not_less [symmetric])

lemma pow2_add: "(2::real) powi (m + n) = 2 powi m * 2 powi n"
  by (simp add: power_int_add)

lemma pow2_diff: "(2::real) powi (m - n) = 2 powi m / 2 powi n"
  by (simp add: power_int_diff)

lemma pow2_nat: "0 \<le> k \<Longrightarrow> (2::real) powi k = of_int (2 ^ nat k)"
  by (simp add: power_int_def)

lemma rhe_0 [simp]: "round_half_even 0 = 0"
  using rhe_of_int [of 0] by simp

lemma rhe_numeral [simp]: "round_half_even (numeral n) = numeral n"
  using rhe_of_int [of "numeral n"] by simp

lemma rhe_1 [simp]: "round_half_even 1 = 1"
  using rhe_of_int [of 1] by simp

lemma round_at_0 [simp]: "round_at e 0 = 0"
  by (simp add: round_at_def)

lemma round_at_exact:
  assumes "x = of_int n * 2 powi (e - 52)"
  shows "round_at e x = x"
  by (simp add: round_at_def assms)

lemma round_at_minus: "round_at e (- x) = - round_at e x"
  by (simp add: round_at_def rhe_minus)

lemma exponent_minus [simp]: "exponent (- x) = exponent x"
  by (simp add: exponent_def)

lemma round_real_minus: "round_real (- x) = - round_real x"
  by (simp add: round_real_def round_at_minus)

lemma round53_minus: "round53 (- x) = - round53 x"
  by (simp add: round53_def round_at_minus)

lemma round_real_0 [simp]: "round_real 0 = 0"
  by (simp add: round_real_def)

lemma round53_0 [simp]: "round53 0 = 0"
  by (simp add: round53_def)

lemma round_at_le:
  assumes "x \<le> of_int b * 2 powi (e - 52)"
  shows "round_at e x \<le> of_int b * 2 powi (e - 52)"
proof -
  have "x / 2 powi (e - 52) \<le> of_int b"
    using assms by (simp add: pos_divide_le_eq)
  then have "round_half_even (x / 2 powi (e - 52)) \<le> b" by (rule rhe_le)
  then have "real_of_int (round_half_even (x / 2 powi (e - 52))) \<le> of_int b" by simp
  then show ?thesis
    unfolding round_at_def by (intro mult_right_mono) simp_all
qed

lemma round_at_ge:
  assumes "of_int a * 2 powi (e - 52) \<le> x"
  shows "of_int a * 2 powi (e - 52) \<le> round_at e x"
proof -
  have "of_int a \<le> x / 2 powi (e - 52)"
    using assms by (simp add: pos_le_divide_eq)
  then have "a \<le> round_half_even (x / 2 powi (e - 52))" by (rule rhe_ge)
  then have "real_of_int a \<le> of_int (round_half_even (x / 2 powi (e - 52)))" by simp
  then show ?thesis
    unfolding round_at_def by (intro mult_right_mono) simp_all
qed

lemma dyadic_exponent_le:
  assumes x: "x = of_int m * 2 powi j" and m: "\<bar>m\<bar> < 2 ^ 53" and "x \<noteq> 0"
  shows "exponent x - 52 \<le> j"
proof -
  have "\<bar>x\<bar> = of_int \<bar>m\<bar> * 2 powi j" by (simp add: x abs_mult)
  also have "\<dots> < 2 ^ 53 * 2 powi j"
    using m by (intro mult_strict_right_mono) (simp_all flip: of_int_less_iff)
  also have "\<dots> = 2 powi (53 + j)" by (simp add: pow2_add)
  finally have "\<bar>x\<bar> < 2 powi (53 + j)" .
  with exponent_bounds(1) [OF \<open>x \<noteq> 0\<close>] have "(2::real) powi (exponent x) < 2 powi (53 + j)"
    by simp
  then show ?thesis by (simp add: pow2_less_iff)
qed

lemma round_at_dyadic:
  assumes x: "x = of_int m * 2 powi j" and le: "e - 52 \<le> j"
  shows "round_at e x = x"
proof -
  have "x = of_int (m * 2 ^ nat (j - (e - 52))) * 2 powi (e - 52)"
  proof -
    have "(2::real) powi j = 2 powi (j - (e - 52)) * 2 powi (e - 52)"
      by (simp flip: pow2_add)
    also have "(2::real) powi (j - (e - 52)) = of_int (2 ^ nat (j - (e - 52)))"
      using le by (intro pow2_nat) simp
    finally show ?thesis by (simp add: x)
  qed
  then show ?thesis by (rule round_at_exact)
qed

lemma round_real_dyadic:
  assumes x: "x = of_int m * 2 powi j" and m: "\<bar>m\<bar> < 2 ^ 53" and j: "- 1074 \<le> j"
  shows "round_real x = x"
proof (cases "x = 0")
  case True
  then show ?thesis by simp
next
  case False
  from dyadic_exponent_le [OF x m False] j
  have "max (- 1022) (exponent x) - 52 \<le> j" by simp
  with x show ?thesis unfolding round_real_def by (rule round_at_dyadic)
qed

lemma round53_dyadic:
  assumes x: "x = of_int m * 2 powi j" and m: "\<bar>m\<bar> < 2 ^ 53"
  shows "round53 x = x"
proof (cases "x = 0")
  case True
  then show ?thesis by simp
next
  case False
  from dyadic_exponent_le [OF x m False]
  show ?thesis unfolding round53_def using x by (intro round_at_dyadic)
qed


lemma abs_less_next_binade:
  assumes "x \<noteq> 0"
  shows "\<bar>x\<bar> < 2 powi (max (- 1022) (exponent x) + 1)"
proof -
  have "\<bar>x\<bar> < 2 powi (exponent x + 1)" using assms by (rule exponent_bounds)
  also have "\<dots> \<le> 2 powi (max (- 1022) (exponent x) + 1)"
    by (simp add: pow2_le_iff)
  finally show ?thesis .
qed

lemma round_real_form:
  "\<exists>m j. round_real x = of_int m * 2 powi j \<and> \<bar>m\<bar> < 2 ^ 53 \<and> - 1074 \<le> j"
proof (cases "x = 0")
  case True
  have "round_real x = of_int 0 * 2 powi (- 1074)" using True by simp
  then show ?thesis by (intro exI [of _ 0] exI [of _ "- 1074"]) simp
next
  case False
  define e where "e = max (- 1022) (exponent x)"
  define k where "k = e - 52"
  define n where "n = round_half_even (x / 2 powi k)"
  have k: "- 1074 \<le> k" by (simp add: k_def e_def)
  have r: "round_real x = of_int n * 2 powi k"
    by (simp add: round_real_def round_at_def n_def k_def e_def)
  have "\<bar>x\<bar> < 2 powi (e + 1)" unfolding e_def using False by (rule abs_less_next_binade)
  also have "e + 1 = 53 + k" by (simp add: k_def)
  also have "(2::real) powi (53 + k) = 2 ^ 53 * 2 powi k" by (simp add: pow2_add)
  finally have "\<bar>x\<bar> / 2 powi k < 2 ^ 53" by (simp add: pos_divide_less_eq)
  then have b: "x / 2 powi k \<le> of_int (2 ^ 53)" "of_int (- (2 ^ 53)) \<le> x / 2 powi k"
    by (simp_all add: abs_less_iff divide_simps split: if_splits) 
  have n: "n \<le> 2 ^ 53" "- (2 ^ 53) \<le> n"
    unfolding n_def using b by (auto intro: rhe_le rhe_ge)
  consider "\<bar>n\<bar> < 2 ^ 53" | "n = 2 ^ 53" | "n = - (2 ^ 53)" using n by linarith
  then show ?thesis
  proof cases
    case 1
    with r k show ?thesis by blast
  next
    case 2
    have "round_real x = of_int 1 * 2 powi (k + 53)"
      by (simp add: r 2 pow2_add)
    then show ?thesis using k by (intro exI [of _ 1] exI [of _ "k + 53"]) simp
  next
    case 3
    have "round_real x = of_int (- 1) * 2 powi (k + 53)"
      by (simp add: r 3 pow2_add)
    then show ?thesis using k by (intro exI [of _ "- 1"] exI [of _ "k + 53"]) simp
  qed
qed

lemma round_real_idem [simp]: "round_real (round_real x) = round_real x"
proof -
  from round_real_form [of x] obtain m j
    where "round_real x = of_int m * 2 powi j" "\<bar>m\<bar> < 2 ^ 53" "- 1074 \<le> j" by blast
  then show ?thesis by (rule round_real_dyadic)
qed

lemma round_real_le:
  assumes w: "round_real w = w" and le: "x \<le> w"
  shows "round_real x \<le> w"
proof (cases "x = 0")
  case True
  with le show ?thesis by simp
next
  case False
  from round_real_form [of w] w obtain m j
    where Rf: "w = of_int m * 2 powi j" and m: "\<bar>m\<bar> < 2 ^ 53" and j: "- 1074 \<le> j"
    by auto
  define e where "e = max (- 1022) (exponent x)"
  define k where "k = e - 52"
  have rr: "round_real x = round_at e x" by (simp add: round_real_def e_def)
  show ?thesis
  proof (cases "k \<le> j")
    case True
    have "(2::real) powi j = 2 powi (j - k) * 2 powi k" by (simp flip: pow2_add)
    also have "(2::real) powi (j - k) = of_int (2 ^ nat (j - k))"
      using True by (intro pow2_nat) simp
    finally have "w = of_int (m * 2 ^ nat (j - k)) * 2 powi (e - 52)"
      by (simp add: Rf k_def)
    with le round_at_le [of x "m * 2 ^ nat (j - k)" e] show ?thesis
      by (simp add: rr)
  next
    case False
    then have jk: "53 + j \<le> e" by (simp add: k_def)
    have "\<bar>w\<bar> = of_int \<bar>m\<bar> * 2 powi j" by (simp add: Rf abs_mult)
    also have "\<dots> < 2 ^ 53 * 2 powi j"
      using m by (intro mult_strict_right_mono) (simp_all flip: of_int_less_iff)
    also have "\<dots> = 2 powi (53 + j)" by (simp add: pow2_add)
    also have "\<dots> \<le> 2 powi e" using jk by (simp add: pow2_le_iff)
    finally have Re: "\<bar>w\<bar> < 2 powi e" .
    from jk j have "e = exponent x" by (simp add: e_def max_def split: if_splits)
    with exponent_bounds(1) [OF \<open>x \<noteq> 0\<close>] have xe: "2 powi e \<le> \<bar>x\<bar>" by simp
    with Re le have neg: "x \<le> - (2 powi e)" by linarith
    have "(2::real) powi e = 2 powi (52 + (e - 52))" by simp
    also have "\<dots> = 2 ^ 52 * 2 powi (e - 52)" by (simp only: pow2_add) simp
    finally have "(2::real) powi e = 2 ^ 52 * 2 powi (e - 52)" .
    then have "- ((2::real) powi e) = of_int (- (2 ^ 52)) * 2 powi (e - 52)" by simp
    with neg round_at_le [of x "- (2 ^ 52)" e] have "round_at e x \<le> - (2 powi e)"
      by simp
    with Re show ?thesis by (simp add: rr abs_less_iff)
  qed
qed

lemma round_real_ge:
  assumes w: "round_real w = w" and le: "w \<le> x"
  shows "w \<le> round_real x"
proof -
  have "round_real (- w) = - w" by (simp add: round_real_minus w)
  moreover have "- x \<le> - w" using le by simp
  ultimately have "round_real (- x) \<le> - w" by (rule round_real_le)
  then show ?thesis by (simp add: round_real_minus)
qed


lemma round_real_of_int:
  assumes "\<bar>m\<bar> < 2 ^ 53"
  shows "round_real (of_int m) = of_int m"
proof -
  have "real_of_int m = of_int m * 2 powi 0" by simp
  from this assms show ?thesis by (rule round_real_dyadic) simp
qed

lemma round_real_pow2:
  assumes "- 1074 \<le> k"
  shows "round_real (2 powi k) = 2 powi k"
proof -
  have "(2::real) powi k = of_int 1 * 2 powi k" by simp
  from this _ assms show ?thesis by (rule round_real_dyadic) simp
qed

lemma MaxFloat64_dyadic: "MaxFloat64 = of_int (2 ^ 53 - 1) * 2 powi 971"
  by (simp add: MaxFloat64_def)

lemma round_real_MaxFloat64: "round_real MaxFloat64 = MaxFloat64"
  using MaxFloat64_dyadic by (rule round_real_dyadic) simp_all

lemma MaxFloat64_pos: "0 < MaxFloat64"
  by (simp add: MaxFloat64_def)

lemma MaxFloat64_nonneg [simp]: "0 \<le> MaxFloat64"
  using MaxFloat64_pos by simp

lemma round_real_abs_le:
  assumes w: "round_real w = w" and le: "\<bar>x\<bar> \<le> w"
  shows "\<bar>round_real x\<bar> \<le> w"
proof -
  from le have "x \<le> w" "- w \<le> x" by simp_all
  moreover have "round_real (- w) = - w" by (simp add: round_real_minus w)
  ultimately have "round_real x \<le> w" "- w \<le> round_real x"
    using w by (auto intro: round_real_le round_real_ge)
  then show ?thesis by simp
qed

lemma round_real_nonneg: "0 \<le> x \<Longrightarrow> 0 \<le> round_real x"
  using round_real_ge [of 0 x] by simp

lemma round_real_nonpos: "x \<le> 0 \<Longrightarrow> round_real x \<le> 0"
  using round_real_le [of 0 x] by simp

section \<open>Results of operations\<close>

lemma canonical_simps [simp]:
  "canonical (Fin r) \<longleftrightarrow> round_real r = r \<and> \<bar>r\<bar> \<le> MaxFloat64"
  "canonical NegZero" "canonical PInf" "canonical NInf" "canonical NaN"
  by (simp_all add: canonical_def)

lemma canonical_zero [simp]: "canonical (Fin 0)"
  using MaxFloat64_pos by simp

lemma canonical_round64 [simp]: "canonical (round64 x)"
  by (auto simp: round64_def Let_def)

lemma round64_not_nan [simp]: "round64 x \<noteq> NaN" "\<not> is_nan (round64 x)"
  by (simp_all add: round64_def Let_def)

lemma round64_id:
  assumes "round_real r = r" "\<bar>r\<bar> \<le> MaxFloat64" "r \<noteq> 0"
  shows "round64 r = Fin r"
  using assms by (auto simp: round64_def Let_def)

text \<open>An exact result within two values of the format rounds to a value within them.\<close>

lemma round64_between:
  assumes a: "round_real a = a" and b: "round_real b = b"
    and "0 < a" "a \<le> x" "x \<le> b" "b \<le> MaxFloat64"
  shows "\<exists>r. round64 x = Fin r \<and> a \<le> r \<and> r \<le> b \<and> round_real r = r"
proof -
  have "a \<le> round_real x" using a \<open>a \<le> x\<close> by (rule round_real_ge)
  moreover have "round_real x \<le> b" using b \<open>x \<le> b\<close> by (rule round_real_le)
  ultimately show ?thesis
    using assms(3,6) MaxFloat64_pos by (auto simp: round64_def Let_def)
qed

lemma round64_finite:
  assumes "\<bar>x\<bar> \<le> MaxFloat64"
  shows "is_finite (round64 x)"
proof -
  from round_real_abs_le [OF round_real_MaxFloat64 assms] MaxFloat64_pos
  show ?thesis by (auto simp: round64_def Let_def)
qed

lemma canonical_f64_zero [simp]: "canonical (f64_zero s)"
  by (simp add: f64_zero_def)

lemma canonical_f64_inf [simp]: "canonical (f64_inf s)"
  by (simp add: f64_inf_def)

lemma canonical_add [simp]: "canonical (f64_add x y)"
  by (cases x; cases y) simp_all

lemma canonical_sub [simp]: "canonical (f64_sub x y)"
  by (simp add: f64_sub_def)

lemma canonical_mul [simp]: "canonical (f64_mul x y)"
  by (simp add: f64_mul_def)

lemma canonical_div [simp]: "canonical (f64_div x y)"
  by (simp add: f64_div_def)

lemma f64_mul_one:
  assumes "canonical x"
  shows "f64_mul x (Fin 1) = x"
proof (cases x)
  case (Fin r)
  with assms show ?thesis
    by (cases "r = 0") (simp_all add: f64_mul_def f64_zero_def round64_id)
qed (simp_all add: f64_mul_def f64_zero_def f64_inf_def)

lemma f64_div_one:
  assumes "canonical x"
  shows "f64_div x (Fin 1) = x"
proof (cases x)
  case (Fin r)
  with assms show ?thesis
    by (cases "r = 0") (simp_all add: f64_div_def f64_zero_def round64_id)
qed (simp_all add: f64_div_def f64_zero_def f64_inf_def)

lemma f64_add_commute: "f64_add x y = f64_add y x"
  by (cases x; cases y) (simp_all add: add.commute)

section \<open>The two loops\<close>

declare Simulation_loop.simps [simp del]
declare main_loop.simps [simp del]

lemma Simulation_loop_done:
  "\<not> k \<le> n \<Longrightarrow> Simulation_loop k n Sp Tau K dt pid ys T = (T, ys)"
  by (subst Simulation_loop.simps) simp

lemma Simulation_loop_step:
  "k \<le> n \<Longrightarrow>
   Simulation_loop k n Sp Tau K dt pid ys T =
   Simulation_loop (k + 1) n Sp Tau K dt (snd (Compute pid Sp (last ys) dt))
     (ys @ [DynamicResponse (fst (Compute pid Sp (last ys) dt)) (last ys) dt Tau K])
     (T @ [f64_add (last T) dt])"
  by (subst Simulation_loop.simps) (simp add: Let_def split_beta)

lemma Simulation_loop_invariant:
  assumes init: "I pid ys T"
    and step: "\<And>pid ys T. I pid ys T \<Longrightarrow>
      I (snd (Compute pid Sp (last ys) dt))
        (ys @ [DynamicResponse (fst (Compute pid Sp (last ys) dt)) (last ys) dt Tau K])
        (T @ [f64_add (last T) dt])"
  shows "\<exists>pid'. I pid' (snd (Simulation_loop k n Sp Tau K dt pid ys T))
                     (fst (Simulation_loop k n Sp Tau K dt pid ys T))"
proof -
  have "nat (n + 1 - k) = m \<Longrightarrow> I pid ys T \<Longrightarrow>
        \<exists>pid'. I pid' (snd (Simulation_loop k n Sp Tau K dt pid ys T))
                     (fst (Simulation_loop k n Sp Tau K dt pid ys T))" for m k pid ys T
  proof (induction m arbitrary: k pid ys T)
    case 0
    then have "\<not> k \<le> n" by simp
    with 0 show ?case by (auto simp: Simulation_loop_done)
  next
    case (Suc m)
    then have le: "k \<le> n" and m: "nat (n + 1 - (k + 1)) = m" by simp_all
    from Suc.IH [OF m step [OF Suc.prems(2)]] show ?case
      by (simp add: Simulation_loop_step [OF le])
  qed
  with init show ?thesis by blast
qed

lemma Simulation_loop_length:
  "length (fst (Simulation_loop k n Sp Tau K dt pid ys T)) = length T + nat (n + 1 - k) \<and>
   length (snd (Simulation_loop k n Sp Tau K dt pid ys T)) = length ys + nat (n + 1 - k)"
proof -
  have "nat (n + 1 - k) = m \<Longrightarrow>
    length (fst (Simulation_loop k n Sp Tau K dt pid ys T)) = length T + m \<and>
    length (snd (Simulation_loop k n Sp Tau K dt pid ys T)) = length ys + m" for m k pid ys T
  proof (induction m arbitrary: k pid ys T)
    case 0
    then have "\<not> k \<le> n" by simp
    then show ?case by (simp add: Simulation_loop_done)
  next
    case (Suc m)
    then have le: "k \<le> n" and m: "nat (n + 1 - (k + 1)) = m" by simp_all
    from Suc.IH [OF m] show ?case
      by (simp add: Simulation_loop_step [OF le])
  qed
  then show ?thesis by blast
qed


lemma length_time_axis: "length (time_axis dt m) = m"
  by (simp add: time_axis_def)

lemma time_axis_Suc: "time_axis dt (Suc m) = time_axis dt m @ [instant dt m]"
  by (simp add: time_axis_def)

lemma time_axis_nth: "k < m \<Longrightarrow> time_axis dt m ! k = instant dt k"
  by (simp add: time_axis_def)

lemma time_axis_append:
  assumes T: "T = time_axis dt (length T)" and ne: "T \<noteq> []"
  shows "T @ [f64_add (last T) dt] = time_axis dt (Suc (length T))"
proof -
  from ne obtain m where m: "length T = Suc m" by (cases T) simp_all
  from T m have "T = time_axis dt m @ [instant dt m]"
    by (simp only: time_axis_Suc)
  then have "last T = instant dt m"
    by (metis last_snoc)
  then have "f64_add (last T) dt = instant dt (Suc m)"
    by simp
  with T m show ?thesis
    by (metis time_axis_Suc)
qed

lemma Simulation_loop_time:
  assumes T: "T = time_axis dt (length T)" and ne: "T \<noteq> []"
  shows "fst (Simulation_loop k n Sp Tau K dt pid ys T)
         = time_axis dt (length T + nat (n + 1 - k))"
proof -
  define I where "I = (\<lambda>(pid::PID) (ys::f64 list) T. T = time_axis dt (length T) \<and> T \<noteq> [])"
  have step: "I (snd (Compute pid Sp (last ys) dt))
        (ys @ [DynamicResponse (fst (Compute pid Sp (last ys) dt)) (last ys) dt Tau K])
        (T @ [f64_add (last T) dt])" if "I pid ys T" for pid ys T
    using that time_axis_append [of T dt]
    by (simp add: I_def length_time_axis) (simp add: time_axis_Suc)
  have "I pid ys T" using T ne by (simp add: I_def)
  then have "\<exists>pid'. I pid' (snd (Simulation_loop k n Sp Tau K dt pid ys T))
                     (fst (Simulation_loop k n Sp Tau K dt pid ys T))"
    using step by (rule Simulation_loop_invariant)
  then have "fst (Simulation_loop k n Sp Tau K dt pid ys T)
    = time_axis dt (length (fst (Simulation_loop k n Sp Tau K dt pid ys T)))"
    by (simp add: I_def)
  then show ?thesis
    by (simp only: Simulation_loop_length)
qed


lemma Simulation_loop_first:
  assumes "ys \<noteq> []" "T \<noteq> []"
  shows "fst (Simulation_loop k n Sp Tau K dt pid ys T) ! 0 = T ! 0 \<and>
         snd (Simulation_loop k n Sp Tau K dt pid ys T) ! 0 = ys ! 0"
proof -
  define I where "I = (\<lambda>(p::PID) ys' T'.
     ys' \<noteq> [] \<and> T' \<noteq> [] \<and> T' ! 0 = T ! 0 \<and> ys' ! 0 = ys ! 0)"
  have step: "I (snd (Compute p Sp (last ys') dt))
        (ys' @ [DynamicResponse (fst (Compute p Sp (last ys') dt)) (last ys') dt Tau K])
        (T' @ [f64_add (last T') dt])" if "I p ys' T'" for p ys' T'
    using that by (simp add: I_def nth_append)
  have "I pid ys T" using assms by (simp add: I_def)
  then have "\<exists>pid'. I pid' (snd (Simulation_loop k n Sp Tau K dt pid ys T))
                     (fst (Simulation_loop k n Sp Tau K dt pid ys T))"
    using step by (rule Simulation_loop_invariant)
  then show ?thesis by (simp add: I_def)
qed

lemma main_loop_done:
  "\<not> t < numIterations \<Longrightarrow>
   main_loop t numIterations QPoc_ref Pond dt pid Qond QPoc T = (T, Qond, QPoc)"
  by (subst main_loop.simps) simp

lemma main_loop_step:
  "t < numIterations \<Longrightarrow>
   main_loop t numIterations QPoc_ref Pond dt pid Qond QPoc T =
   main_loop (t + 1) numIterations QPoc_ref Pond dt
     (snd (main_Compute pid QPoc_ref (last QPoc)))
     (Qond @ [fst (main_Compute pid QPoc_ref (last QPoc))])
     (QPoc @ [main_Simulation Pond (fst (main_Compute pid QPoc_ref (last QPoc)))])
     (T @ [f64_add (last T) dt])"
  by (subst main_loop.simps) (simp add: Let_def split_beta)

lemma main_loop_invariant:
  assumes init: "I pid Qond QPoc T"
    and step: "\<And>pid Qond QPoc T. I pid Qond QPoc T \<Longrightarrow>
      I (snd (main_Compute pid QPoc_ref (last QPoc)))
        (Qond @ [fst (main_Compute pid QPoc_ref (last QPoc))])
        (QPoc @ [main_Simulation Pond (fst (main_Compute pid QPoc_ref (last QPoc)))])
        (T @ [f64_add (last T) dt])"
  shows "case main_loop t numIterations QPoc_ref Pond dt pid Qond QPoc T of
           (T', Qond', QPoc') \<Rightarrow> \<exists>pid'. I pid' Qond' QPoc' T'"
proof -
  have "nat (numIterations - t) = m \<Longrightarrow> I pid Qond QPoc T \<Longrightarrow>
        (case main_loop t numIterations QPoc_ref Pond dt pid Qond QPoc T of
           (T', Qond', QPoc') \<Rightarrow> \<exists>pid'. I pid' Qond' QPoc' T')" for m t pid Qond QPoc T
  proof (induction m arbitrary: t pid Qond QPoc T)
    case 0
    then have "\<not> t < numIterations" by simp
    with 0 show ?case by (auto simp: main_loop_done)
  next
    case (Suc m)
    then have lt: "t < numIterations" and m: "nat (numIterations - (t + 1)) = m"
      by simp_all
    from Suc.IH [OF m step [OF Suc.prems(2)]] show ?case
      by (simp add: main_loop_step [OF lt])
  qed
  from this [OF refl init] show ?thesis .
qed

lemma main_loop_shape:
  assumes "length Qond = length T" "length QPoc = length T" "T \<noteq> []"
    "T = time_axis dt (length T)"
  shows "case main_loop t numIterations QPoc_ref Pond dt pid Qond QPoc T of
           (T', Qond', QPoc') \<Rightarrow>
             length Qond' = length T' \<and> length QPoc' = length T' \<and>
             T' = time_axis dt (length T') \<and>
             T' ! 0 = T ! 0 \<and> Qond' ! 0 = Qond ! 0 \<and> QPoc' ! 0 = QPoc ! 0"
proof -
  define I where "I = (\<lambda>(p::PID) Qond' QPoc' T'.
     length Qond' = length T' \<and> length QPoc' = length T' \<and> T' \<noteq> [] \<and>
     T' = time_axis dt (length T') \<and>
     T' ! 0 = T ! 0 \<and> Qond' ! 0 = Qond ! 0 \<and> QPoc' ! 0 = QPoc ! 0)"
  have step: "I (snd (main_Compute p QPoc_ref (last Qp)))
        (Qo @ [fst (main_Compute p QPoc_ref (last Qp))])
        (Qp @ [main_Simulation Pond (fst (main_Compute p QPoc_ref (last Qp)))])
        (Ts @ [f64_add (last Ts) dt])" if "I p Qo Qp Ts" for p Qo Qp Ts
  proof -
    from that have ne: "Ts \<noteq> []" and ax: "Ts = time_axis dt (length Ts)"
      and len: "length Qo = length Ts" "length Qp = length Ts"
      and first: "Ts ! 0 = T ! 0" "Qo ! 0 = Qond ! 0" "Qp ! 0 = QPoc ! 0"
      by (simp_all add: I_def)
    from ne len have pos: "0 < length Ts" "0 < length Qo" "0 < length Qp" by simp_all
    have ta: "Ts @ [f64_add (last Ts) dt] = time_axis dt (Suc (length Ts))"
      using ax ne by (rule time_axis_append)
    show ?thesis unfolding I_def
    proof (intro conjI)
      show "Ts @ [f64_add (last Ts) dt]
            = time_axis dt (length (Ts @ [f64_add (last Ts) dt]))"
        using ta by (simp add: length_time_axis)
    qed (use len first pos in \<open>simp_all add: nth_append\<close>)
  qed
  have "I pid Qond QPoc T" using assms by (simp add: I_def)
  then have "case main_loop t numIterations QPoc_ref Pond dt pid Qond QPoc T of
           (T', Qond', QPoc') \<Rightarrow> \<exists>pid'. I pid' Qond' QPoc' T'"
    using step by (rule main_loop_invariant)
  then show ?thesis by (simp add: I_def split_beta)
qed

lemma main_loop_length:
  "length (fst (main_loop t numIterations QPoc_ref Pond dt pid Qond QPoc T))
   = length T + nat (numIterations - t)"
proof -
  have "nat (numIterations - t) = m \<Longrightarrow>
    length (fst (main_loop t numIterations QPoc_ref Pond dt pid Qond QPoc T)) = length T + m"
    for m t pid Qond QPoc T
  proof (induction m arbitrary: t pid Qond QPoc T)
    case 0
    then have "\<not> t < numIterations" by simp
    then show ?case by (simp add: main_loop_done)
  next
    case (Suc m)
    then have lt: "t < numIterations" and m: "nat (numIterations - (t + 1)) = m"
      by simp_all
    from Suc.IH [OF m] show ?case
      by (simp add: main_loop_step [OF lt])
  qed
  then show ?thesis by blast
qed

lemma go_int_nonneg:
  assumes "0 \<le> N" "N < 2 ^ 63"
  shows "go_int (Fin N) = \<lfloor>N\<rfloor>"
proof -
  from assms(2) have "\<lfloor>N\<rfloor> < 2 ^ 63" by (simp add: floor_less_iff)
  moreover from assms(1) have "0 \<le> \<lfloor>N\<rfloor>" by simp
  ultimately show ?thesis using assms(1)
    by (simp add: trunc_real_def MinInt64_def MaxInt64_def)
qed

lemma Simulation_shape:
  "length (fst (Simulation Sp Tau K P Ki' Kd' dt N)) = nat (go_int N) + 1 \<and>
   length (snd (Simulation Sp Tau K P Ki' Kd' dt N)) = nat (go_int N) + 1 \<and>
   fst (Simulation Sp Tau K P Ki' Kd' dt N) ! 0 = Fin 0 \<and>
   snd (Simulation Sp Tau K P Ki' Kd' dt N) ! 0 = Fin 0"
  using Simulation_loop_length [of 1 "go_int N" Sp Tau K dt "NewPID P Ki' Kd'" "[Fin 0]" "[Fin 0]"]
    Simulation_loop_first [of "[Fin 0]" "[Fin 0]" 1 "go_int N" Sp Tau K dt "NewPID P Ki' Kd'"]
  by (simp add: Simulation_def)

lemma Simulation_time:
  "fst (Simulation Sp Tau K P Ki' Kd' dt N) = time_axis dt (nat (go_int N) + 1)"
  using Simulation_loop_time [of "[Fin 0]" dt 1 "go_int N" Sp Tau K "NewPID P Ki' Kd'" "[Fin 0]"]
  by (simp add: Simulation_def time_axis_def)

lemma go_int_less_one: "N < 1 \<Longrightarrow> go_int (Fin N) \<le> 0"
proof -
  assume "N < 1"
  then have "trunc_real N \<le> 0"
    by (simp add: trunc_real_def floor_le_iff ceiling_le_iff)
  then show ?thesis by (simp add: MinInt64_def)
qed

lemma go_int_of_int_floor:
  assumes "0 \<le> N" "N < 2 ^ 63"
  shows "go_int (Fin (of_int \<lfloor>N\<rfloor>)) = go_int (Fin N)"
proof -
  from assms(2) have "\<lfloor>N\<rfloor> < 2 ^ 63" by (simp add: floor_less_iff)
  moreover from assms(1) have "0 \<le> \<lfloor>N\<rfloor>" by simp
  ultimately have a: "go_int (Fin (of_int \<lfloor>N\<rfloor>)) = \<lfloor>N\<rfloor>"
    by (simp add: trunc_real_def MinInt64_def MaxInt64_def)
  have b: "go_int (Fin N) = \<lfloor>N\<rfloor>" using assms by (rule go_int_nonneg)
  show ?thesis by (simp only: a b)
qed

section \<open>Rounding of literals\<close>

lemma MaxFloat64_ge_pow: "k \<le> 1023 \<Longrightarrow> 2 powi k \<le> MaxFloat64"
proof -
  assume "k \<le> 1023"
  then have "(2::real) powi k \<le> 2 powi 1023" by (simp only: pow2_le_iff)
  also have "\<dots> \<le> MaxFloat64" by (simp add: MaxFloat64_def)
  finally show ?thesis .
qed

lemma round64_of_int:
  assumes "\<bar>m\<bar> < 2 ^ 53" "m \<noteq> 0"
  shows "round64 (of_int m) = Fin (of_int m)"
proof (rule round64_id)
  show "round_real (real_of_int m) = real_of_int m" using assms(1) by (rule round_real_of_int)
  have "\<bar>real_of_int m\<bar> \<le> 2 ^ 53" using assms(1) by (simp flip: of_int_abs of_int_le_iff)
  also have "\<dots> \<le> MaxFloat64" by (simp add: MaxFloat64_def)
  finally show "\<bar>real_of_int m\<bar> \<le> MaxFloat64" .
  show "real_of_int m \<noteq> 0" using assms(2) by simp
qed

lemma round64_numeral [simp]:
  "(numeral n :: int) < 2 ^ 53 \<Longrightarrow> round64 (numeral n) = Fin (numeral n)"
  using round64_of_int [of "numeral n"] by simp

lemma round64_neg_numeral [simp]:
  "(numeral n :: int) < 2 ^ 53 \<Longrightarrow> round64 (- numeral n) = Fin (- numeral n)"
  using round64_of_int [of "- numeral n"] by simp

lemma round64_1 [simp]: "round64 1 = Fin 1"
  using round64_of_int [of 1] by simp

lemma round64_neg_1 [simp]: "round64 (- 1) = Fin (- 1)"
  using round64_of_int [of "- 1"] by simp

lemma round64_pow2:
  assumes "- 1074 \<le> k" "k \<le> 1023"
  shows "round64 (2 powi k) = Fin (2 powi k)"
proof (rule round64_id)
  show "round_real (2 powi k) = 2 powi k" using assms(1) by (rule round_real_pow2)
  show "\<bar>(2::real) powi k\<bar> \<le> MaxFloat64" using assms(2) by (simp add: MaxFloat64_ge_pow)
  show "(2::real) powi k \<noteq> 0" by simp
qed

lemma round64_overflow:
  assumes "2 powi 1024 \<le> x"
  shows "round64 x = PInf"
proof -
  have "round_real (2 powi 1024) = 2 powi 1024" by (rule round_real_pow2) simp
  from this assms have "2 powi 1024 \<le> round_real x" by (rule round_real_ge)
  moreover have "MaxFloat64 < 2 powi 1024" by (simp add: MaxFloat64_def)
  ultimately show ?thesis by (simp add: round64_def Let_def)
qed

section \<open>Evaluation of the operations\<close>

lemma f64_mul_Fin:
  "f64_mul (Fin a) (Fin b) =
     (if a * b = 0 then f64_zero ((a < 0) \<noteq> (b < 0)) else round64 (a * b))"
  by (simp add: f64_mul_def)

lemma f64_div_Fin:
  "f64_div (Fin a) (Fin b) =
     (if b = 0 then (if a = 0 then NaN else f64_inf (a < 0))
      else if a = 0 then f64_zero (b < 0)
      else round64 (a / b))"
  by (simp add: f64_div_def)

lemma f64_nan_simps [simp]:
  "f64_add x NaN = NaN" "f64_add NaN x = NaN"
  "f64_mul x NaN = NaN" "f64_mul NaN x = NaN"
  "f64_div x NaN = NaN" "f64_div NaN x = NaN"
  "f64_sub x NaN = NaN" "f64_sub NaN x = NaN"
  by (cases x; simp add: f64_mul_def f64_div_def f64_sub_def)+

lemma f64_mul_inf_simps:
  "f64_mul (Fin a) PInf = (if a = 0 then NaN else f64_inf (a < 0))"
  "f64_mul PInf (Fin a) = (if a = 0 then NaN else f64_inf (a < 0))"
  "f64_mul (Fin a) NInf = (if a = 0 then NaN else f64_inf (\<not> a < 0))"
  "f64_mul NInf (Fin a) = (if a = 0 then NaN else f64_inf (\<not> a < 0))"
  by (auto simp: f64_mul_def f64_inf_def)

lemma f64_div_inf_simps:
  "f64_div PInf (Fin a) = f64_inf (a < 0)"
  "f64_div NInf (Fin a) = f64_inf (\<not> a < 0)"
  "f64_div (Fin a) PInf = f64_zero (a < 0)"
  "f64_div (Fin a) NInf = f64_zero (\<not> a < 0)"
  by (auto simp: f64_div_def f64_inf_def f64_zero_def)

lemmas f64_eval =
  f64_mul_Fin f64_div_Fin f64_mul_inf_simps f64_div_inf_simps f64_sub_def
  f64_zero_def f64_inf_def

section \<open>Positive results within powers of two\<close>

lemma round64_pos:
  assumes "2 powi lo \<le> x" "x \<le> 2 powi hi" "- 1074 \<le> lo" "hi \<le> 1023"
  shows "\<exists>r. round64 x = Fin r \<and> 2 powi lo \<le> r \<and> r \<le> 2 powi hi \<and> round_real r = r"
proof (rule round64_between)
  show "round_real (2 powi lo) = 2 powi lo" using assms(3) by (rule round_real_pow2)
  have "(2::real) powi lo \<le> 2 powi hi" using assms(1,2) by simp
  then have "lo \<le> hi" by (simp only: pow2_le_iff)
  with assms(3) show "round_real (2 powi hi) = 2 powi hi" by (intro round_real_pow2) simp
  show "(0::real) < 2 powi lo" by simp
  show "2 powi hi \<le> MaxFloat64" using assms(4) by (rule MaxFloat64_ge_pow)
qed (use assms in simp_all)

lemma f64_const_pos:
  assumes "2 powi lo \<le> x" "x \<le> 2 powi hi" "- 1074 \<le> lo" "hi \<le> 1023"
  shows "\<exists>r. f64_const x = Fin r \<and> 2 powi lo \<le> r \<and> r \<le> 2 powi hi \<and> round_real r = r"
  unfolding f64_const_def using assms by (rule round64_pos)

lemma f64_mul_pos:
  assumes "0 < a" "0 < b" "2 powi lo \<le> a * b" "a * b \<le> 2 powi hi" "- 1074 \<le> lo" "hi \<le> 1023"
  shows "\<exists>r. f64_mul (Fin a) (Fin b) = Fin r \<and> 2 powi lo \<le> r \<and> r \<le> 2 powi hi
             \<and> round_real r = r"
proof -
  from assms(1,2) have "a * b \<noteq> 0" by simp
  then have "f64_mul (Fin a) (Fin b) = round64 (a * b)" by (simp add: f64_mul_Fin)
  with round64_pos [OF assms(3-6)] show ?thesis by simp
qed

lemma f64_div_pos:
  assumes "0 < a" "0 < b" "2 powi lo \<le> a / b" "a / b \<le> 2 powi hi" "- 1074 \<le> lo" "hi \<le> 1023"
  shows "\<exists>r. f64_div (Fin a) (Fin b) = Fin r \<and> 2 powi lo \<le> r \<and> r \<le> 2 powi hi
             \<and> round_real r = r"
proof -
  from assms(1,2) have "f64_div (Fin a) (Fin b) = round64 (a / b)" by (simp add: f64_div_Fin)
  with round64_pos [OF assms(3-6)] show ?thesis by simp
qed

lemma exponent_ge:
  assumes "2 powi k \<le> \<bar>x\<bar>"
  shows "k \<le> exponent x"
proof -
  have "(0::real) < 2 powi k" by simp
  with assms have "0 < \<bar>x\<bar>" by linarith
  then have "x \<noteq> 0" by simp
  then have "\<bar>x\<bar> < 2 powi (exponent x + 1)" by (rule exponent_bounds)
  with assms have "(2::real) powi k < 2 powi (exponent x + 1)" by simp
  then have "k < exponent x + 1" by (simp only: pow2_less_iff)
  then show ?thesis by simp
qed

lemma round53_normal:
  assumes "2 powi (- 1022) \<le> \<bar>x\<bar>"
  shows "round53 x = round_real x"
proof -
  from assms have "- 1022 \<le> exponent x" by (rule exponent_ge)
  then show ?thesis by (simp add: round53_def round_real_def max_def)
qed

lemma math_Pow_2_pos:
  assumes "0 < a" "2 powi lo \<le> a * a" "a * a \<le> 2 powi hi" "- 1022 \<le> lo" "hi \<le> 1023"
  shows "\<exists>r. math_Pow_2 (Fin a) = Fin r \<and> 2 powi lo \<le> r \<and> r \<le> 2 powi hi
             \<and> round_real r = r"
proof -
  have "(2::real) powi (- 1022) \<le> 2 powi lo" using assms(4) by (simp only: pow2_le_iff)
  with assms(2) have "2 powi (- 1022) \<le> \<bar>a * a\<bar>" by simp
  then have r53: "round53 (a * a) = round_real (a * a)" by (rule round53_normal)
  from assms(4) have lo: "- 1074 \<le> lo" by simp
  have "(2::real) powi lo \<le> 2 powi hi" using assms(2,3) by simp
  then have "lo \<le> hi" by (simp only: pow2_le_iff)
  with lo have hi: "- 1074 \<le> hi" by simp
  have 1: "2 powi lo \<le> round_real (a * a)"
    using round_real_pow2 [OF lo] assms(2) by (rule round_real_ge)
  have 2: "round_real (a * a) \<le> 2 powi hi"
    using round_real_pow2 [OF hi] assms(3) by (rule round_real_le)
  from round64_pos [OF 1 2 lo assms(5)] assms(1) show ?thesis
    by (simp add: r53)
qed

section \<open>The two forms of the controller\<close>

lemma main_Compute_is_Compute_one:
  "main_Compute pid setpoint currentValue = Compute pid setpoint currentValue (Fin 1)"
  by (simp add: main_Compute_def Compute_def f64_mul_one f64_div_one)

text \<open>
  Claim C5. From one starting controller (gains and state) and over any sequence of
  calls, \<open>Compute\<close> of package \<^verbatim>\<open>main\<close>, which takes no step size, returns the outputs
  and leaves the controller that \<open>Compute\<close> of package \<^verbatim>\<open>simulation\<close> does with
  \<open>dt = 1\<close>.
\<close>

theorem no_dt_form_is_dt_one:
  "main_Compute_calls pid calls = Compute_calls pid (Fin 1) calls"
proof (induction calls arbitrary: pid)
  case Nil
  show ?case by simp
next
  case (Cons call calls)
  obtain setpoint currentValue where call: "call = (setpoint, currentValue)"
    by (cases call)
  show ?case
    by (simp add: call main_Compute_is_Compute_one Cons.IH)
qed

section \<open>The controller step\<close>

text \<open>
  Claim C1. A call of \<open>Compute\<close> returns
  \<open>Kp * e + Ki * (integral + e * dt) + Kd * (e - previous_error) / dt\<close> for
  \<open>e = setpoint - currentValue\<close>, every operation being the \<^verbatim>\<open>float64\<close> operation and
  the operations taken in the order of the source: the sum of the first two terms is
  formed first, and the product \<open>Kd * (e - previous_error)\<close> is formed before the
  division. The call leaves the controller with the integral \<open>integral + e * dt\<close> and
  the previous error \<open>e\<close>, whatever the gains are (\<open>Kd = 0\<close> included), and the gains
  unchanged.
\<close>

theorem Compute_formula:
  "Compute pid setpoint currentValue dt =
     (f64_add
        (f64_add (f64_mul (Kp pid) (f64_sub setpoint currentValue))
           (f64_mul (Ki pid)
              (f64_add (integral pid) (f64_mul (f64_sub setpoint currentValue) dt))))
        (f64_div
           (f64_mul (Kd pid)
              (f64_sub (f64_sub setpoint currentValue) (previouserror_pid pid)))
           dt),
      pid\<lparr>integral := f64_add (integral pid) (f64_mul (f64_sub setpoint currentValue) dt),
          previouserror_pid := f64_sub setpoint currentValue\<rparr>)"
  by (simp add: Compute_def Let_def)

text \<open>An instance: gains 2, 3, 0, integral 1, previous error 4, and the call \<open>(10, 4, 2)\<close>.\<close>

theorem Compute_formula_example:
  "Compute \<lparr>Kp = Fin 2, Ki = Fin 3, Kd = Fin 0,
            integral = Fin 1, previouserror_pid = Fin 4\<rparr> (Fin 10) (Fin 4) (Fin 2)
   = (Fin 51, \<lparr>Kp = Fin 2, Ki = Fin 3, Kd = Fin 0,
               integral = Fin 13, previouserror_pid = Fin 6\<rparr>)"
  using Compute_formula [of "\<lparr>Kp = Fin 2, Ki = Fin 3, Kd = Fin 0,
            integral = Fin 1, previouserror_pid = Fin 4\<rparr>" "Fin 10" "Fin 4" "Fin 2"]
  by (simp add: f64_eval)

section \<open>The first-order lag\<close>

text \<open>
  Claim C3. \<open>DynamicResponse\<close> returns \<open>y_prev + (dt / Tau) * (K * u - y_prev)\<close>, every
  operation being the \<^verbatim>\<open>float64\<close> operation: the source adds \<open>y_prev\<close> on the right,
  which gives the same \<^verbatim>\<open>float64\<close> since the addition is commutative. This is one
  forward-Euler step of \<open>Tau * dy/dt = K * u - y\<close> of size \<open>dt\<close>.
\<close>

theorem DynamicResponse_formula:
  "DynamicResponse un yn dt Tau K =
     f64_add yn (f64_mul (f64_div dt Tau) (f64_sub (f64_mul K un) yn))"
  by (simp add: DynamicResponse_def f64_add_commute)


section \<open>Configurations the specification calls invalid\<close>

text \<open>
  Claim C4, as the claim states it, fails: \<^verbatim>\<open>Simulation\<close> checks none of its arguments
  and has no error to return. With \<open>dt = 0\<close> and \<open>N = 2\<close> the loop runs twice and the
  result is a trajectory of three samples, the outputs after the first being NaN (the
  derivative term is \<open>0 / 0\<close>); with \<open>N = - 1\<close> the result is the initial sample alone;
  with \<open>Tau = 0\<close> and \<open>N = 1\<close> the loop runs and the second output is \<open>+Inf\<close>.
\<close>

theorem Simulation_bad_configuration_counterexample:
  "Simulation (Fin 1) (Fin 1) (Fin 1) (Fin 1) (Fin 1) (Fin 0) (Fin 0) (Fin 2)
     = ([Fin 0, Fin 0, Fin 0], [Fin 0, NaN, NaN]) \<and>
   Simulation (Fin 1) (Fin 1) (Fin 1) (Fin 1) (Fin 1) (Fin 0) (Fin 1) (Fin (- 1))
     = ([Fin 0], [Fin 0]) \<and>
   Simulation (Fin 1) (Fin 0) (Fin 1) (Fin 1) (Fin 1) (Fin 0) (Fin 1) (Fin 1)
     = ([Fin 0, Fin 1], [Fin 0, PInf])"
proof -
  have g: "go_int (Fin 2) = 2" "go_int (Fin (- 1)) = - 1" "go_int (Fin 1) = 1"
    by (simp_all add: trunc_real_def MinInt64_def MaxInt64_def ceiling_def)
  show ?thesis
    unfolding Simulation_def g
    by (simp add: Simulation_loop_step Simulation_loop_done NewPID_def Compute_def
        DynamicResponse_def f64_eval Let_def)
qed

lemma not_finite_add_left: "\<not> is_finite a \<Longrightarrow> \<not> is_finite (f64_add a b)"
  by (cases a; cases b) simp_all

lemma not_finite_add_right: "\<not> is_finite b \<Longrightarrow> \<not> is_finite (f64_add a b)"
  by (cases a; cases b) simp_all

lemma not_finite_sub_left: "\<not> is_finite a \<Longrightarrow> \<not> is_finite (f64_sub a b)"
  unfolding f64_sub_def by (rule not_finite_add_left)

lemma not_finite_mul_left: "\<not> is_finite a \<Longrightarrow> \<not> is_finite (f64_mul a b)"
  by (cases a; cases b) (simp_all add: f64_mul_def f64_inf_def)

lemma not_finite_mul_right: "\<not> is_finite b \<Longrightarrow> \<not> is_finite (f64_mul a b)"
  by (cases a; cases b) (simp_all add: f64_mul_def f64_inf_def)

lemma not_finite_div_zero: "is_zero d \<Longrightarrow> \<not> is_finite (f64_div x d)"
  by (cases x; cases d) (simp_all add: f64_div_def f64_inf_def)

lemma Compute_zero_step: "is_zero dt \<Longrightarrow> \<not> is_finite (fst (Compute pid Sp cv dt))"
  by (simp add: Compute_def Let_def not_finite_add_right not_finite_div_zero)

lemma DynamicResponse_not_finite:
  assumes "\<not> is_finite un \<or> is_zero Tau"
  shows "\<not> is_finite (DynamicResponse un yn dt Tau K)"
proof -
  have "\<not> is_finite (f64_mul (f64_div dt Tau) (f64_sub (f64_mul K un) yn))"
    using assms
  proof
    assume "\<not> is_finite un"
    then have "\<not> is_finite (f64_mul K un)" by (rule not_finite_mul_right)
    then have "\<not> is_finite (f64_sub (f64_mul K un) yn)" by (rule not_finite_sub_left)
    then show ?thesis by (rule not_finite_mul_right)
  next
    assume "is_zero Tau"
    then have "\<not> is_finite (f64_div dt Tau)" by (rule not_finite_div_zero)
    then show ?thesis by (rule not_finite_mul_left)
  qed
  then show ?thesis
    unfolding DynamicResponse_def by (rule not_finite_add_left)
qed

lemma Simulation_not_finite:
  assumes "is_zero dt \<or> is_zero Tau"
  shows "\<forall>k. 1 \<le> k \<and> k < length (snd (Simulation Sp Tau K P Ki' Kd' dt N))
           \<longrightarrow> \<not> is_finite (snd (Simulation Sp Tau K P Ki' Kd' dt N) ! k)"
proof -
  define I where "I = (\<lambda>(pid::PID) (ys::f64 list) (T::f64 list).
     \<forall>k. 1 \<le> k \<and> k < length ys \<longrightarrow> \<not> is_finite (ys ! k))"
  have init: "I (NewPID P Ki' Kd') [Fin 0] [Fin 0]"
    by (simp add: I_def)
  have step: "I (snd (Compute pid Sp (last ys) dt))
        (ys @ [DynamicResponse (fst (Compute pid Sp (last ys) dt)) (last ys) dt Tau K])
        (T @ [f64_add (last T) dt])" if "I pid ys T" for pid ys T
  proof -
    have "\<not> is_finite (DynamicResponse (fst (Compute pid Sp (last ys) dt)) (last ys) dt Tau K)"
      using assms Compute_zero_step [of dt pid Sp "last ys"]
      by (intro DynamicResponse_not_finite) blast
    with that show ?thesis
      by (auto simp: I_def nth_append)
  qed
  from Simulation_loop_invariant [of I, OF init step]
  show ?thesis
    unfolding Simulation_def I_def by blast
qed

text \<open>
  Claim C4, amended. For every configuration, those with \<open>dt \<le> 0\<close>, \<open>N < 0\<close> or
  \<open>Tau = 0\<close> included, \<^verbatim>\<open>Simulation\<close> returns a trajectory: a time axis and an output of
  \<open>max (int(N), 0) + 1\<close> samples each, both starting with 0. With \<open>dt = 0\<close> or
  \<open>Tau = 0\<close> the loop still runs \<open>int(N)\<close> times and every output after the first is
  NaN or an infinity.
\<close>

theorem Simulation_validates_nothing:
  "\<exists>T Y. Simulation Sp Tau K P Ki' Kd' dt N = (T, Y) \<and>
     length T = nat (go_int N) + 1 \<and> length Y = nat (go_int N) + 1 \<and>
     T ! 0 = Fin 0 \<and> Y ! 0 = Fin 0 \<and>
     (is_zero dt \<or> is_zero Tau \<longrightarrow>
        (\<forall>k. 1 \<le> k \<and> k < length Y \<longrightarrow> \<not> is_finite (Y ! k)))"
  using Simulation_shape [of Sp Tau K P Ki' Kd' dt N]
    Simulation_not_finite [of dt Tau Sp K P Ki' Kd' N]
  by (cases "Simulation Sp Tau K P Ki' Kd' dt N") simp

theorem Simulation_validates_nothing_witness:
  "is_zero (Fin 0) \<and>
   length (snd (Simulation (Fin 1) (Fin 1) (Fin 1) (Fin 1) (Fin 1) (Fin 0) (Fin 0) (Fin 2))) = 3 \<and>
   \<not> is_finite (snd (Simulation (Fin 1) (Fin 1) (Fin 1) (Fin 1) (Fin 1) (Fin 0) (Fin 0) (Fin 2))
      ! 1) \<and>
   \<not> is_finite (snd (Simulation (Fin 1) (Fin 1) (Fin 1) (Fin 1) (Fin 1) (Fin 0) (Fin 0) (Fin 2))
      ! 2)"
proof -
  have g: "go_int (Fin 2) = 2"
    by (simp add: trunc_real_def MinInt64_def MaxInt64_def)
  from Simulation_validates_nothing [of "Fin 1" "Fin 1" "Fin 1" "Fin 1" "Fin 1" "Fin 0" "Fin 0"
      "Fin 2"]
  show ?thesis
    unfolding g by auto
qed

text \<open>
  Claim C10. \<^verbatim>\<open>Simulation\<close> takes \<open>N\<close> as a \<^verbatim>\<open>float64\<close> and runs \<open>int(N)\<close> steps. For
  every \<open>N < 1\<close>, negative or a fraction, it returns the initial sample alone,
  \<open>([0], [0])\<close>. For \<open>1 \<le> N < 2^63\<close> it returns what it returns for \<open>N\<close> without its
  fraction, a trajectory of \<open>\<lfloor>N\<rfloor> + 1\<close> samples.
\<close>

theorem Simulation_truncates:
  "(N < 1 \<longrightarrow> Simulation Sp Tau K P Ki' Kd' dt (Fin N) = ([Fin 0], [Fin 0])) \<and>
   (1 \<le> N \<and> N < 2 ^ 63 \<longrightarrow>
      Simulation Sp Tau K P Ki' Kd' dt (Fin N)
        = Simulation Sp Tau K P Ki' Kd' dt (Fin (of_int \<lfloor>N\<rfloor>)) \<and>
      length (fst (Simulation Sp Tau K P Ki' Kd' dt (Fin N))) = nat \<lfloor>N\<rfloor> + 1 \<and>
      length (snd (Simulation Sp Tau K P Ki' Kd' dt (Fin N))) = nat \<lfloor>N\<rfloor> + 1)"
proof (intro conjI impI)
  assume "N < 1"
  then have "\<not> 1 \<le> go_int (Fin N)" using go_int_less_one [of N] by simp
  then show "Simulation Sp Tau K P Ki' Kd' dt (Fin N) = ([Fin 0], [Fin 0])"
    by (simp add: Simulation_def Simulation_loop_done)
next
  assume N: "1 \<le> N \<and> N < 2 ^ 63"
  then have "go_int (Fin (of_int \<lfloor>N\<rfloor>)) = go_int (Fin N)"
    by (intro go_int_of_int_floor) simp_all
  then show "Simulation Sp Tau K P Ki' Kd' dt (Fin N)
        = Simulation Sp Tau K P Ki' Kd' dt (Fin (of_int \<lfloor>N\<rfloor>))"
    by (simp only: Simulation_def)
  from N have g: "go_int (Fin N) = \<lfloor>N\<rfloor>" by (intro go_int_nonneg) simp_all
  from Simulation_shape [of Sp Tau K P Ki' Kd' dt "Fin N"]
  show "length (fst (Simulation Sp Tau K P Ki' Kd' dt (Fin N))) = nat \<lfloor>N\<rfloor> + 1"
    and "length (snd (Simulation Sp Tau K P Ki' Kd' dt (Fin N))) = nat \<lfloor>N\<rfloor> + 1"
    by (simp_all only: g)
qed

theorem Simulation_truncates_witness:
  "((-3::real) < 1 \<and>
    Simulation (Fin 10) (Fin 1) (Fin 1) (Fin 5) (Fin 10) (Fin 0) (Fin (1 / 2)) (Fin (-3))
      = ([Fin 0], [Fin 0])) \<and>
   ((1 / 2::real) < 1 \<and>
    Simulation (Fin 10) (Fin 1) (Fin 1) (Fin 5) (Fin 10) (Fin 0) (Fin (1 / 2)) (Fin (1 / 2))
      = ([Fin 0], [Fin 0])) \<and>
   ((1::real) \<le> 5 / 2 \<and> (5 / 2::real) < 2 ^ 63 \<and>
    Simulation (Fin 10) (Fin 1) (Fin 1) (Fin 5) (Fin 10) (Fin 0) (Fin (1 / 2)) (Fin (5 / 2))
      = Simulation (Fin 10) (Fin 1) (Fin 1) (Fin 5) (Fin 10) (Fin 0) (Fin (1 / 2)) (Fin 2) \<and>
    length (fst (Simulation (Fin 10) (Fin 1) (Fin 1) (Fin 5) (Fin 10) (Fin 0) (Fin (1 / 2))
      (Fin (5 / 2)))) = 3)"
proof -
  have f: "\<lfloor>5 / 2::real\<rfloor> = 2" by linarith
  have a: "Simulation (Fin 10) (Fin 1) (Fin 1) (Fin 5) (Fin 10) (Fin 0) (Fin (1 / 2)) (Fin (-3))
      = ([Fin 0], [Fin 0])"
    using Simulation_truncates [of "-3" "Fin 10" "Fin 1" "Fin 1" "Fin 5" "Fin 10" "Fin 0" "Fin (1 / 2)"]
    by simp
  have b: "Simulation (Fin 10) (Fin 1) (Fin 1) (Fin 5) (Fin 10) (Fin 0) (Fin (1 / 2)) (Fin (1 / 2))
      = ([Fin 0], [Fin 0])"
    using Simulation_truncates [of "1 / 2" "Fin 10" "Fin 1" "Fin 1" "Fin 5" "Fin 10" "Fin 0" "Fin (1 / 2)"]
    by simp
  have c: "Simulation (Fin 10) (Fin 1) (Fin 1) (Fin 5) (Fin 10) (Fin 0) (Fin (1 / 2)) (Fin (5 / 2))
      = Simulation (Fin 10) (Fin 1) (Fin 1) (Fin 5) (Fin 10) (Fin 0) (Fin (1 / 2)) (Fin 2) \<and>
    length (fst (Simulation (Fin 10) (Fin 1) (Fin 1) (Fin 5) (Fin 10) (Fin 0) (Fin (1 / 2))
      (Fin (5 / 2)))) = 3"
    using Simulation_truncates [of "5 / 2" "Fin 10" "Fin 1" "Fin 1" "Fin 5" "Fin 10" "Fin 0" "Fin (1 / 2)"]
    by (auto simp: f)
  have n: "(-3::real) < 1" "(1 / 2::real) < 1" "(1::real) \<le> 5 / 2" "(5 / 2::real) < 2 ^ 63"
    by simp_all
  from a b c n show ?thesis by blast
qed

section \<open>The electrical system\<close>

lemma two_pi_const:
  "\<exists>r. f64_const (2 * pi) = Fin r \<and> 4 \<le> r \<and> r \<le> 8 \<and> round_real r = r"
proof -
  have "2 powi 2 \<le> 2 * pi" "2 * pi \<le> 2 powi 3"
    using pi_ge_two pi_less_4 by simp_all
  from f64_const_pos [OF this] show ?thesis by simp
qed

lemma omega_main_sys:
  "\<exists>r. f64_mul (f64_const (2 * pi)) (Fin 50) = Fin r \<and> 128 \<le> r \<and> r \<le> 512
       \<and> round_real r = r"
proof -
  from two_pi_const obtain c where c: "f64_const (2 * pi) = Fin c" "4 \<le> c" "c \<le> 8" by blast
  have "2 powi 7 \<le> c * 50" "c * 50 \<le> 2 powi 9" using c(2,3) by simp_all
  from f64_mul_pos [OF _ _ this] c show ?thesis by simp
qed

lemma L_main_sys:
  "\<exists>r. f64_const (2.8 / 1000) = Fin r \<and> 1 / 512 \<le> r \<and> r \<le> 1 / 256 \<and> round_real r = r"
proof -
  have "2 powi (- 9) \<le> (2.8 / 1000 :: real)" "(2.8 / 1000 :: real) \<le> 2 powi (- 8)"
    by simp_all
  from f64_const_pos [OF this] show ?thesis by simp
qed

lemma X_L_main_sys:
  "\<exists>r. f64_mul (f64_mul (f64_const (2 * pi)) (f main_sys)) (L main_sys) = Fin r
       \<and> 1 / 4 \<le> r \<and> r \<le> 2 \<and> round_real r = r"
proof -
  from omega_main_sys obtain w where w: "f64_mul (f64_const (2 * pi)) (Fin 50) = Fin w"
    "128 \<le> w" "w \<le> 512" by blast
  from L_main_sys obtain l where l: "f64_const (2.8 / 1000) = Fin l"
    "1 / 512 \<le> l" "l \<le> 1 / 256" by blast
  have "128 * (1 / 512) \<le> w * l" using w(2) l(2) by (intro mult_mono) simp_all
  then have lo: "2 powi (- 2) \<le> w * l" by simp
  have "w * l \<le> 512 * (1 / 256)" using w(2,3) l(2,3) by (intro mult_mono) simp_all
  then have hi: "w * l \<le> 2 powi 1" by simp
  from w(2) l(2) have "0 < w" "0 < l" by simp_all
  from f64_mul_pos [OF this lo hi] w(1) l(1) show ?thesis
    by (simp add: main_sys_def)
qed

lemma half_pi_const:
  "\<exists>r. f64_const (pi / 2) = Fin r \<and> 1 \<le> r \<and> r \<le> 2 \<and> round_real r = r"
proof -
  have "2 powi 0 \<le> pi / 2" "pi / 2 \<le> 2 powi 1"
    using pi_ge_two pi_less_4 by simp_all
  from f64_const_pos [OF this] show ?thesis by simp
qed

text \<open>
  Claim C6 asks for \<open>X_C = 0\<close> when \<open>C = 0\<close>. \<open>ComputeImpedance\<close> divides all the
  same: on the system \<^verbatim>\<open>Simulation\<close> of package \<^verbatim>\<open>main\<close> builds (\<open>C = 0\<close>, \<open>R = 0\<close>,
  \<open>f = 50\<close>) it computes \<open>X_C = 1 / 0 = +Inf\<close>, hence the impedance \<open>+Inf\<close> and the
  angle \<^verbatim>\<open>Copysign(Pi/2, -Inf)\<close>, the negated \<^verbatim>\<open>float64\<close> of \<open>pi / 2\<close>, a number between
  \<open>- 2\<close> and \<open>- 1\<close>; the claim gives \<open>Z = X_L\<close> and the angle \<open>pi / 2\<close>. This holds
  whatever \<^verbatim>\<open>math.Atan\<close> returns, since the case that calls it is not reached.
\<close>

theorem ComputeImpedance_main_sys:
  "ComputeImpedance Atan main_sys = (PInf, f64_neg (f64_const (pi / 2))) \<and>
   (\<exists>r. f64_neg (f64_const (pi / 2)) = Fin r \<and> - 2 \<le> r \<and> r \<le> - 1)"
proof
  from X_L_main_sys obtain x where x:
    "f64_mul (f64_mul (f64_const (2 * pi)) (f main_sys)) (L main_sys) = Fin x" by blast
  from omega_main_sys obtain w where w: "f64_mul (f64_const (2 * pi)) (Fin 50) = Fin w"
    "128 \<le> w" by blast
  have X_C: "f64_div (Fin 1)
      (f64_mul (f64_mul (f64_const (2 * pi)) (f main_sys)) (C main_sys)) = PInf"
    using w by (simp add: main_sys_def f64_eval)
  show "ComputeImpedance Atan main_sys = (PInf, f64_neg (f64_const (pi / 2)))"
    unfolding ComputeImpedance_def Let_def x X_C
    by (simp add: main_sys_def f64_sub_def math_Atan2_def copysign_const_def)
next
  from half_pi_const obtain h where "f64_const (pi / 2) = Fin h" "1 \<le> h" "h \<le> 2" by blast
  then show "\<exists>r. f64_neg (f64_const (pi / 2)) = Fin r \<and> - 2 \<le> r \<and> r \<le> - 1"
    by simp
qed

lemma round53_nonneg: "0 \<le> x \<Longrightarrow> 0 \<le> round53 x"
  using round_at_ge [of 0 "exponent x" x] by (simp add: round53_def)

lemma round64_nonneg:
  assumes "0 \<le> x"
  shows "f64_ge_zero (round64 x) \<and> round64 x \<noteq> NegZero"
  using assms round_real_nonneg [OF assms] MaxFloat64_pos
  by (auto simp: round64_def Let_def)

lemma math_Pow_2_nonneg:
  assumes "is_finite x"
  shows "f64_ge_zero (math_Pow_2 x) \<and> math_Pow_2 x \<noteq> NegZero"
proof (cases x)
  case (Fin a)
  have "0 \<le> round53 (a * a)" by (rule round53_nonneg) simp
  then show ?thesis using Fin round64_nonneg [of "round53 (a * a)"] by simp
qed (use assms in simp_all)

lemma f64_add_nonneg:
  assumes "f64_ge_zero x \<and> x \<noteq> NegZero" "f64_ge_zero y \<and> y \<noteq> NegZero"
  shows "f64_ge_zero (f64_add x y) \<and> f64_add x y \<noteq> NegZero"
proof (cases x)
  case x: (Fin a)
  show ?thesis
  proof (cases y)
    case (Fin b)
    with x assms have "0 \<le> a + b" by simp
    from round64_nonneg [OF this] show ?thesis using x Fin by simp
  qed (use assms x in simp_all)
next
  case PInf
  with assms show ?thesis by (cases y) simp_all
qed (use assms in simp_all)

lemma math_Sqrt_nonneg:
  assumes "f64_ge_zero x \<and> x \<noteq> NegZero"
  shows "f64_ge_zero (math_Sqrt x)"
proof (cases x)
  case (Fin a)
  with assms have "0 \<le> sqrt a" by simp
  from round64_nonneg [OF this] show ?thesis using Fin assms by simp
qed (use assms in simp_all)

lemma ComputeS_nonneg:
  assumes "is_finite Pond" "is_finite Qond"
  shows "f64_ge_zero (ComputeS sys Pond Qond)"
  unfolding ComputeS_def
  by (intro math_Sqrt_nonneg f64_add_nonneg math_Pow_2_nonneg assms)

text \<open>
  Claim C7. \<open>ComputeQPoc\<close> returns \<open>Q + (I\<^sup>2 * X_L - I\<^sup>2 * X_C)\<close> with \<open>S = sqrt (P\<^sup>2 + Q\<^sup>2)\<close>,
  \<open>I = S / U_poc\<close>, \<open>X_L = 2 pi f L\<close>, and \<open>X_C = 0\<close> if \<open>C\<close> is a zero, else
  \<open>1 / (2 pi f C)\<close>, every operation being the \<^verbatim>\<open>float64\<close> operation in the order of the
  source (squares by \<^verbatim>\<open>math.Pow\<close>, the root by \<^verbatim>\<open>math.Sqrt\<close>). For finite \<open>P\<close> and \<open>Q\<close>
  the apparent power \<open>S\<close> satisfies \<open>S \<ge> 0\<close>: it is a number that is not negative, or
  \<open>+Inf\<close> when a square or their sum overflows, never NaN.
\<close>

theorem ComputeQPoc_formula:
  "ComputeQPoc sys Pond Qond =
     (let S = math_Sqrt (f64_add (math_Pow_2 Pond) (math_Pow_2 Qond));
          I = f64_div S (UPoc sys);
          X_L = f64_mul (f64_mul (f64_const (2 * pi)) (f sys)) (L sys);
          X_C = (if is_zero (C sys) then Fin 0
                 else f64_div (Fin 1) (f64_mul (f64_mul (f64_const (2 * pi)) (f sys)) (C sys)))
      in f64_add Qond (f64_sub (f64_mul (math_Pow_2 I) X_L) (f64_mul (math_Pow_2 I) X_C))) \<and>
   ComputeS sys Pond Qond = math_Sqrt (f64_add (math_Pow_2 Pond) (math_Pow_2 Qond)) \<and>
   (is_finite Pond \<and> is_finite Qond \<longrightarrow> f64_ge_zero (ComputeS sys Pond Qond))"
  by (simp add: ComputeQPoc_def ComputeReactivePowerSys_def ComputeS_def [symmetric] Let_def
      ComputeS_nonneg)
    (simp add: ComputeS_def)

lemma sqrt_25: "sqrt 25 = 5"
  by (rule real_sqrt_unique) simp_all

lemma round53_numeral [simp]:
  "(numeral n :: int) < 2 ^ 53 \<Longrightarrow> round53 (numeral n) = numeral n"
  using round53_dyadic [of "numeral n" "numeral n" 0] by simp

theorem ComputeQPoc_formula_witness:
  "is_finite (Fin 3) \<and> is_finite (Fin 4) \<and>
   ComputeS \<lparr>L = Fin 1, C = Fin 0, R = Fin 0, f = Fin 1, UPoc = Fin 2\<rparr> (Fin 3) (Fin 4) = Fin 5 \<and>
   f64_ge_zero (ComputeS \<lparr>L = Fin 1, C = Fin 0, R = Fin 0, f = Fin 1, UPoc = Fin 2\<rparr>
     (Fin 3) (Fin 4))"
  using ComputeQPoc_formula [of "\<lparr>L = Fin 1, C = Fin 0, R = Fin 0, f = Fin 1, UPoc = Fin 2\<rparr>"
      "Fin 3" "Fin 4"]
  by (simp add: sqrt_25)

section \<open>The shape of the trajectories\<close>

lemma time_axis_step:
  assumes "T = time_axis dt (length T)" "Suc k < length T"
  shows "T ! Suc k = f64_add (T ! k) dt"
proof -
  have "T ! Suc k = instant dt (Suc k)" "T ! k = instant dt k"
    using assms time_axis_nth [of "Suc k" "length T" dt] time_axis_nth [of k "length T" dt]
    by simp_all
  then show ?thesis by simp
qed

lemma round_real_eval:
  assumes "2 powi e \<le> \<bar>x\<bar>" "\<bar>x\<bar> < 2 powi (e + 1)" "- 1022 \<le> e"
  shows "round_real x = of_int (round_half_even (x / 2 powi (e - 52))) * 2 powi (e - 52)"
proof -
  from assms(1,2) have "exponent x = e" by (rule exponent_eqI)
  with assms(3) show ?thesis by (simp add: round_real_def round_at_def max_def)
qed

lemma rhe_near:
  assumes "of_int n - 1 / 2 < x" "x < of_int n + 1 / 2"
  shows "round_half_even x = n"
proof (cases "of_int n \<le> x")
  case True
  with assms(2) have "\<lfloor>x\<rfloor> = n" by (intro floor_unique) simp_all
  with assms(2) show ?thesis by (simp add: round_half_even_def Let_def)
next
  case False
  then have "of_int (n - 1) \<le> x" "x < of_int (n - 1) + 1" using assms(1) by simp_all
  then have "\<lfloor>x\<rfloor> = n - 1" by (rule floor_unique)
  with assms(1) show ?thesis by (simp add: round_half_even_def Let_def)
qed

lemma rhe_tie:
  assumes "x = of_int n + 1 / 2"
  shows "round_half_even x = (if even n then n else n + 1)"
proof -
  have "\<lfloor>x\<rfloor> = n" unfolding assms by (rule floor_unique) simp_all
  then show ?thesis by (simp add: round_half_even_def Let_def assms)
qed

text \<open>The \<^verbatim>\<open>float64\<close> of the constant 0.1 and the first instants of its time axis.\<close>

lemma tenth_const: "f64_const (1 / 10) = Fin (3602879701896397 / 2 ^ 55)"
proof -
  have "round_real (1 / 10) =
        of_int (round_half_even ((1 / 10) / 2 powi (- 4 - 52))) * 2 powi (- 4 - 52)"
    by (rule round_real_eval) simp_all
  also have "round_half_even ((1 / 10) / 2 powi (- 4 - 52)) = 7205759403792794"
    by (rule rhe_near) simp_all
  finally have r: "round_real (1 / 10) = 3602879701896397 / 2 ^ 55" by simp
  show ?thesis
    unfolding f64_const_def round64_def Let_def r by (simp add: MaxFloat64_def)
qed

lemma round64_dyadic:
  assumes "x = of_int m * 2 powi j" "\<bar>m\<bar> < 2 ^ 53" "- 1074 \<le> j" "\<bar>x\<bar> \<le> MaxFloat64" "x \<noteq> 0"
  shows "round64 x = Fin x"
  using round_real_dyadic [OF assms(1-3)] assms(4,5) by (rule round64_id)

lemma instants_tenth:
  "instant (f64_const (1 / 10)) (Suc 0) = f64_const (1 / 10)"
  "instant (f64_const (1 / 10)) 2 = Fin (3602879701896397 / 2 ^ 54)"
  "instant (f64_const (1 / 10)) 3 = Fin (5404319552844596 / 2 ^ 54)"
proof -
  define d :: real where "d = 3602879701896397 / 2 ^ 55"
  have c: "f64_const (1 / 10) = Fin d" by (simp add: tenth_const d_def)
  have d0: "d \<noteq> 0" "d + d \<noteq> 0" "d + d + d \<noteq> 0" by (simp_all add: d_def)
  have r1: "round64 d = Fin d"
    by (rule round64_dyadic [where m = 3602879701896397 and j = "- 55"])
      (simp_all add: MaxFloat64_def d_def)
  have r2: "round64 (d + d) = Fin (d + d)"
    by (rule round64_dyadic [where m = 3602879701896397 and j = "- 54"])
      (simp_all add: MaxFloat64_def d_def)
  have "round_real (d + d + d) =
        of_int (round_half_even ((d + d + d) / 2 powi (- 2 - 52))) * 2 powi (- 2 - 52)"
    by (rule round_real_eval) (simp_all add: d_def)
  also have "round_half_even ((d + d + d) / 2 powi (- 2 - 52))
      = (if even (5404319552844595::int) then 5404319552844595 else 5404319552844595 + 1)"
    by (rule rhe_tie) (simp add: d_def)
  finally have r: "round_real (d + d + d) = 5404319552844596 / 2 ^ 54"
    by simp
  have r3: "round64 (d + d + d) = Fin (5404319552844596 / 2 ^ 54)"
    unfolding round64_def Let_def r by (simp add: MaxFloat64_def)
  have i1: "instant (Fin d) (Suc 0) = Fin d"
    using d0 r1 by simp
  have i2: "instant (Fin d) (Suc (Suc 0)) = Fin (d + d)"
    unfolding instant.simps(2) [of _ "Suc 0"] i1 using d0 r2 by simp
  have i3: "instant (Fin d) (Suc (Suc (Suc 0))) = Fin (5404319552844596 / 2 ^ 54)"
    unfolding instant.simps(2) [of _ "Suc (Suc 0)"] i2 using d0 r3 by simp
  from i1 show "instant (f64_const (1 / 10)) (Suc 0) = f64_const (1 / 10)"
    unfolding c .
  from i2 show "instant (f64_const (1 / 10)) 2 = Fin (3602879701896397 / 2 ^ 54)"
    unfolding c numeral_2_eq_2 by (simp add: d_def)
  from i3 show "instant (f64_const (1 / 10)) 3 = Fin (5404319552844596 / 2 ^ 54)"
    unfolding c numeral_3_eq_3 by simp
qed


lemma sqrt_1e12: "sqrt 1000000000000 = 1000000"
  by (rule real_sqrt_unique) simp_all

lemma main_Simulation_initial:
  "\<exists>r. main_Simulation (Fin 1000000) (Fin 0) = Fin r \<and> 4096 \<le> r"
proof -
  have S: "ComputeS main_sys (Fin 1000000) (Fin 0) = Fin 1000000"
    by (simp add: ComputeS_def sqrt_1e12)
  have "\<exists>r. f64_div (Fin 1000000) (Fin 6700) = Fin r \<and> 2 powi 7 \<le> r \<and> r \<le> 2 powi 8
          \<and> round_real r = r"
    by (rule f64_div_pos) simp_all
  then obtain i where i: "f64_div (Fin 1000000) (Fin 6700) = Fin i" "128 \<le> i" "i \<le> 256"
    by auto
  have "128 * 128 \<le> i * i" using i(2) by (intro mult_mono) simp_all
  then have lo: "2 powi 14 \<le> i * i" by simp
  have "i * i \<le> 256 * 256" using i(2,3) by (intro mult_mono) simp_all
  then have hi: "i * i \<le> 2 powi 16" by simp
  from i(2) have "0 < i" by simp
  from math_Pow_2_pos [OF this lo hi] obtain i2
    where i2: "math_Pow_2 (Fin i) = Fin i2" "16384 \<le> i2" "i2 \<le> 65536" by auto
  from X_L_main_sys obtain x where x:
    "f64_mul (f64_mul (f64_const (2 * pi)) (f main_sys)) (L main_sys) = Fin x"
    "1 / 4 \<le> x" "x \<le> 2" by blast
  have "16384 * (1 / 4) \<le> i2 * x" using i2(2) x(2) by (intro mult_mono) simp_all
  then have lo: "2 powi 12 \<le> i2 * x" by simp
  have "i2 * x \<le> 65536 * 2" using i2(2,3) x(2,3) by (intro mult_mono) simp_all
  then have hi: "i2 * x \<le> 2 powi 17" by simp
  from i2(2) x(2) have "0 < i2" "0 < x" by simp_all
  from f64_mul_pos [OF this lo hi] obtain q
    where q: "f64_mul (Fin i2) (Fin x) = Fin q" "4096 \<le> q" "q \<le> 131072" "round_real q = q"
    by auto
  have "\<bar>q\<bar> \<le> MaxFloat64" using q(2,3) by (simp add: MaxFloat64_def)
  with q have rq: "round64 q = Fin q" by (intro round64_id) simp_all
  have Q: "ComputeReactivePowerSys main_sys (Fin i) = Fin q"
    unfolding ComputeReactivePowerSys_def Let_def x i2 q
    using i2(2) q(2) rq by (simp add: main_sys_def f64_eval)
  have "main_Simulation (Fin 1000000) (Fin 0) = Fin q"
    unfolding main_Simulation_def ComputeQPoc_def Let_def S
    using i(1) Q q(2) rq by (simp add: main_sys_def)
  with q(2) show ?thesis by blast
qed

text \<open>
  Claim C2, as the claim states it, fails. The instants are \<^verbatim>\<open>float64\<close> sums, so they are
  not exactly \<open>dt\<close> apart: with \<open>dt = 0.1\<close> and \<open>N = 3\<close> the time axis of \<^verbatim>\<open>Simulation\<close>
  is \<open>0, 0.1, 0.2, 0.30000000000000004\<close> and the last difference is not \<open>dt\<close>. And the
  closed loop of \<^verbatim>\<open>main\<close> does not start from \<open>y = 0\<close>: the first sample of \<^verbatim>\<open>QPoc\<close>
  is the plant's answer to a zero command, \<^verbatim>\<open>Simulation(Pond, 0)\<close>, which is not 0.
\<close>

theorem trajectory_counterexample:
  "fst (Simulation (Fin 10) (Fin 1) (Fin 1) (Fin 5) (Fin 10) (Fin 0) (f64_const (1 / 10)) (Fin 3))
     = [Fin 0, f64_const (1 / 10), Fin (3602879701896397 / 2 ^ 54),
        Fin (5404319552844596 / 2 ^ 54)] \<and>
   f64_sub (Fin (5404319552844596 / 2 ^ 54)) (Fin (3602879701896397 / 2 ^ 54))
     \<noteq> f64_const (1 / 10) \<and>
   snd (snd main_run) ! 0 \<noteq> Fin 0"
proof (intro conjI)
  have g: "go_int (Fin 3) = 3" by (simp add: trunc_real_def MinInt64_def MaxInt64_def)
  have "fst (Simulation (Fin 10) (Fin 1) (Fin 1) (Fin 5) (Fin 10) (Fin 0) (f64_const (1 / 10))
          (Fin 3)) = time_axis (f64_const (1 / 10)) (nat (go_int (Fin 3)) + 1)"
    by (rule Simulation_time)
  also have "\<dots> = map (instant (f64_const (1 / 10))) [0..<4]"
    unfolding g time_axis_def by simp
  also have "[0..<4] = [0, Suc 0, 2, 3]"
    by (simp add: upt_rec)
  also have "map (instant (f64_const (1 / 10))) [0, Suc 0, 2, 3]
     = [Fin 0, f64_const (1 / 10), Fin (3602879701896397 / 2 ^ 54),
        Fin (5404319552844596 / 2 ^ 54)]"
    unfolding list.map instants_tenth instant.simps(1) ..
  finally show "fst (Simulation (Fin 10) (Fin 1) (Fin 1) (Fin 5) (Fin 10) (Fin 0)
      (f64_const (1 / 10)) (Fin 3))
     = [Fin 0, f64_const (1 / 10), Fin (3602879701896397 / 2 ^ 54),
        Fin (5404319552844596 / 2 ^ 54)]" .
next
  have "round64 (1801439850948199 / 2 ^ 54) = Fin (1801439850948199 / 2 ^ 54)"
    by (rule round64_dyadic [where m = 1801439850948199 and j = "- 54"])
      (simp_all add: MaxFloat64_def)
  then show "f64_sub (Fin (5404319552844596 / 2 ^ 54)) (Fin (3602879701896397 / 2 ^ 54))
     \<noteq> f64_const (1 / 10)"
    by (simp add: f64_sub_def tenth_const)
next
  have "snd (snd main_run) ! 0 = main_Simulation (Fin 1000000) (Fin 0)"
    using main_loop_shape [of "[Fin 0]" "[Fin 0]" "[main_Simulation (Fin 1000000) (Fin 0)]"
        "f64_const (1 / 1000)" 1 1000 "Fin 0" "Fin 1000000"
        "NewPID (f64_const (1 / 100)) (f64_const (1 / 10)) (Fin 0)"]
    by (simp add: main_run_def main_body_def time_axis_def split_beta)
  with main_Simulation_initial show "snd (snd main_run) ! 0 \<noteq> Fin 0" by auto
qed


text \<open>
  Claim C2, amended. \<^verbatim>\<open>Simulation\<close> with an iteration count \<open>0 \<le> N < 2^63\<close> returns, for
  every step \<open>dt\<close>, a time axis and an output of \<open>int(N) + 1\<close> samples each (one sample
  for \<open>N = 0\<close>), both starting with 0, and each later instant is the \<^verbatim>\<open>float64\<close> sum of
  its predecessor and \<open>dt\<close>. The closed loop of \<^verbatim>\<open>main\<close> makes \<open>numIterations - 1\<close> passes
  and returns \<^verbatim>\<open>T\<close>, \<^verbatim>\<open>Qond\<close> and \<^verbatim>\<open>QPoc\<close> of \<open>max(numIterations, 1)\<close> samples each, 1000
  with the constants of \<^verbatim>\<open>main\<close>; \<^verbatim>\<open>T\<close> and \<^verbatim>\<open>Qond\<close> start with 0 and \<^verbatim>\<open>QPoc\<close> with the
  plant's answer to a zero command, and its instants are the same \<^verbatim>\<open>float64\<close> sums.
\<close>

theorem trajectory_shape:
  assumes "0 \<le> N" and "N < 2 ^ 63"
  shows "(case Simulation Sp Tau K P Ki' Kd' dt (Fin N) of (T, Y) \<Rightarrow>
            length T = nat \<lfloor>N\<rfloor> + 1 \<and> length Y = nat \<lfloor>N\<rfloor> + 1 \<and>
            T ! 0 = Fin 0 \<and> Y ! 0 = Fin 0 \<and>
            (\<forall>k. Suc k < length T \<longrightarrow> T ! Suc k = f64_add (T ! k) dt)) \<and>
         (case main_body QPoc_ref Pond kp ki kd numIterations dt of (T, Qond, QPoc) \<Rightarrow>
            length T = nat (numIterations - 1) + 1 \<and>
            length Qond = length T \<and> length QPoc = length T \<and>
            T ! 0 = Fin 0 \<and> Qond ! 0 = Fin 0 \<and> QPoc ! 0 = main_Simulation Pond (Fin 0) \<and>
            (\<forall>k. Suc k < length T \<longrightarrow> T ! Suc k = f64_add (T ! k) dt)) \<and>
         length (fst main_run) = 1000 \<and> length (fst (snd main_run)) = 1000 \<and>
         length (snd (snd main_run)) = 1000"
proof (intro conjI)
  have n: "go_int (Fin N) = \<lfloor>N\<rfloor>" using assms by (rule go_int_nonneg)
  obtain T Y where s: "Simulation Sp Tau K P Ki' Kd' dt (Fin N) = (T, Y)"
    by (cases "Simulation Sp Tau K P Ki' Kd' dt (Fin N)")
  from Simulation_shape [of Sp Tau K P Ki' Kd' dt "Fin N"] s n
  have shape: "length T = nat \<lfloor>N\<rfloor> + 1" "length Y = nat \<lfloor>N\<rfloor> + 1"
    "T ! 0 = Fin 0" "Y ! 0 = Fin 0"
    by simp_all
  from Simulation_time [of Sp Tau K P Ki' Kd' dt "Fin N"] s
  have "T = time_axis dt (length T)" by (simp add: length_time_axis)
  then have "T ! Suc k = f64_add (T ! k) dt" if "Suc k < length T" for k
    using that by (rule time_axis_step)
  with shape s show "case Simulation Sp Tau K P Ki' Kd' dt (Fin N) of (T, Y) \<Rightarrow>
            length T = nat \<lfloor>N\<rfloor> + 1 \<and> length Y = nat \<lfloor>N\<rfloor> + 1 \<and>
            T ! 0 = Fin 0 \<and> Y ! 0 = Fin 0 \<and>
            (\<forall>k. Suc k < length T \<longrightarrow> T ! Suc k = f64_add (T ! k) dt)"
    by simp
next
  obtain T Qond QPoc where m: "main_body QPoc_ref Pond kp ki kd numIterations dt = (T, Qond, QPoc)"
    by (cases "main_body QPoc_ref Pond kp ki kd numIterations dt")
  from main_loop_shape [of "[Fin 0]" "[Fin 0]" "[main_Simulation Pond (Fin 0)]" dt 1 numIterations
      QPoc_ref Pond "NewPID kp ki kd"] m
  have shape: "length Qond = length T" "length QPoc = length T" "T = time_axis dt (length T)"
    "T ! 0 = Fin 0" "Qond ! 0 = Fin 0" "QPoc ! 0 = main_Simulation Pond (Fin 0)"
    by (simp_all add: main_body_def time_axis_def)
  from main_loop_length [of 1 numIterations QPoc_ref Pond dt "NewPID kp ki kd" "[Fin 0]"
      "[main_Simulation Pond (Fin 0)]" "[Fin 0]"] m
  have len: "length T = nat (numIterations - 1) + 1"
    by (simp add: main_body_def)
  from shape(3) have "T ! Suc k = f64_add (T ! k) dt" if "Suc k < length T" for k
    using that by (rule time_axis_step)
  with shape len m show "case main_body QPoc_ref Pond kp ki kd numIterations dt of
       (T, Qond, QPoc) \<Rightarrow>
            length T = nat (numIterations - 1) + 1 \<and>
            length Qond = length T \<and> length QPoc = length T \<and>
            T ! 0 = Fin 0 \<and> Qond ! 0 = Fin 0 \<and> QPoc ! 0 = main_Simulation Pond (Fin 0) \<and>
            (\<forall>k. Suc k < length T \<longrightarrow> T ! Suc k = f64_add (T ! k) dt)"
    by simp
next
  show l: "length (fst main_run) = 1000"
    by (simp add: main_run_def main_body_def main_loop_length)
  from main_loop_shape [of "[Fin 0]" "[Fin 0]" "[main_Simulation (Fin 1000000) (Fin 0)]"
        "f64_const (1 / 1000)" 1 1000 "Fin 0" "Fin 1000000"
        "NewPID (f64_const (1 / 100)) (f64_const (1 / 10)) (Fin 0)"]
  have "length (fst (snd main_run)) = length (fst main_run)"
    "length (snd (snd main_run)) = length (fst main_run)"
    by (simp_all add: main_run_def main_body_def time_axis_def split_beta)
  with l show "length (fst (snd main_run)) = 1000" "length (snd (snd main_run)) = 1000"
    by simp_all
qed

theorem trajectory_shape_witness:
  "(0::real) \<le> 2 \<and> (2::real) < 2 ^ 63 \<and>
   length (fst (Simulation (Fin 10) (Fin 1) (Fin 1) (Fin 5) (Fin 10) (Fin 0) (f64_const (1 / 10))
      (Fin 2))) = 3 \<and>
   length (snd (Simulation (Fin 10) (Fin 1) (Fin 1) (Fin 5) (Fin 10) (Fin 0) (f64_const (1 / 10))
      (Fin 2))) = 3 \<and>
   length (fst (main_body (Fin 0) (Fin 1000000) (f64_const (1 / 100)) (f64_const (1 / 10)) (Fin 0)
      3 (f64_const (1 / 10)))) = 3 \<and>
   fst (Simulation (Fin 10) (Fin 1) (Fin 1) (Fin 5) (Fin 10) (Fin 0) (f64_const (1 / 10))
      (Fin 2)) ! 2 = Fin (3602879701896397 / 2 ^ 54)"
proof -
  have h: "(0::real) \<le> 2" "(2::real) < 2 ^ 63" by simp_all
  have r: "round64 (3602879701896397 / 2 ^ 54) = Fin (3602879701896397 / 2 ^ 54)"
    "round64 (3602879701896397 / 2 ^ 55) = Fin (3602879701896397 / 2 ^ 55)"
    by (rule round64_dyadic [where m = 3602879701896397 and j = "- 54"],
        simp_all add: MaxFloat64_def)
      (rule round64_dyadic [where m = 3602879701896397 and j = "- 55"],
        simp_all add: MaxFloat64_def)
  from trajectory_shape [where N = 2 and Sp = "Fin 10" and Tau = "Fin 1" and K = "Fin 1"
      and P = "Fin 5" and Ki' = "Fin 10" and Kd' = "Fin 0" and dt = "f64_const (1 / 10)"
      and QPoc_ref = "Fin 0" and Pond = "Fin 1000000" and kp = "f64_const (1 / 100)"
      and ki = "f64_const (1 / 10)" and kd = "Fin 0" and numIterations = 3]
  show ?thesis using h r
    by (auto simp add: split_beta tenth_const numeral_2_eq_2)
qed

section \<open>Determinism\<close>

declare Simulation_loop_h.simps [simp del]

lemma Simulation_loop_h_done:
  "\<not> k \<le> n \<Longrightarrow> Simulation_loop_h k n Sp Tau K dt p ys T h = ((T, ys), h)"
  by (subst Simulation_loop_h.simps) simp

lemma Simulation_loop_h_step:
  "k \<le> n \<Longrightarrow>
   Simulation_loop_h k n Sp Tau K dt p ys T h =
   Simulation_loop_h (k + 1) n Sp Tau K dt p
     (ys @ [DynamicResponse (fst (Compute (h ! p) Sp (last ys) dt)) (last ys) dt Tau K])
     (T @ [f64_add (last T) dt])
     (h[p := snd (Compute (h ! p) Sp (last ys) dt)])"
  by (subst Simulation_loop_h.simps) (simp add: Let_def split_beta Compute_h_def)

lemma Simulation_loop_h_heap:
  assumes "p < length h"
  shows "fst (Simulation_loop_h k n Sp Tau K dt p ys T h)
           = Simulation_loop k n Sp Tau K dt (h ! p) ys T \<and>
         (\<exists>pid'. snd (Simulation_loop_h k n Sp Tau K dt p ys T h) = h[p := pid'])"
proof -
  have "nat (n + 1 - k) = m \<Longrightarrow> p < length h \<Longrightarrow>
        fst (Simulation_loop_h k n Sp Tau K dt p ys T h)
           = Simulation_loop k n Sp Tau K dt (h ! p) ys T \<and>
         (\<exists>pid'. snd (Simulation_loop_h k n Sp Tau K dt p ys T h) = h[p := pid'])"
    for m k ys T h
  proof (induction m arbitrary: k ys T h)
    case 0
    then have nle: "\<not> k \<le> n" by simp
    have "h = h[p := h ! p]" by simp
    then have "\<exists>pid'. h = h[p := pid']" ..
    then show ?case by (simp add: Simulation_loop_h_done [OF nle] Simulation_loop_done [OF nle])
  next
    case (Suc m)
    then have le: "k \<le> n" and m: "nat (n + 1 - (k + 1)) = m" by simp_all
    let ?h = "h[p := snd (Compute (h ! p) Sp (last ys) dt)]"
    from Suc.prems(2) have p: "p < length ?h" by simp
    from Suc.prems(2) have hp: "?h ! p = snd (Compute (h ! p) Sp (last ys) dt)" by simp
    have ow: "?h[p := q] = h[p := q]" for q by simp
    from Suc.IH [OF m p] show ?case
      by (simp add: Simulation_loop_h_step [OF le] Simulation_loop_step [OF le] hp ow)
  qed
  with assms show ?thesis by blast
qed

lemma Simulation_h_heap:
  "fst (Simulation_h Sp Tau K P Ki' Kd' dt N h) = Simulation Sp Tau K P Ki' Kd' dt N \<and>
   (\<exists>pid'. snd (Simulation_h Sp Tau K P Ki' Kd' dt N h) = h @ [pid'])"
  using Simulation_loop_h_heap [of "length h" "h @ [NewPID P Ki' Kd']" 1 "go_int N" Sp Tau K dt
      "[Fin 0]" "[Fin 0]"]
  by (simp add: Simulation_h_def NewPID_h_def Simulation_def)

lemma same_sample_refl: "same_sample a a"
  by (cases a) (simp_all add: same_sample_def)

text \<open>
  Claim C9. \<^verbatim>\<open>Simulation\<close> run on a heap of controllers in any state returns the
  trajectory that depends on its eight arguments alone, allocates one controller and
  changes none of those that were there. So of two invocations on the same arguments,
  the second run on the heap the first has left, both return the same two sequences:
  at every position the two values are the same \<^verbatim>\<open>float64\<close>, that is, equal by \<^verbatim>\<open>==\<close> or
  both NaN.
\<close>

theorem Simulation_deterministic:
  "fst (Simulation_h Sp Tau K P Ki' Kd' dt N h) = Simulation Sp Tau K P Ki' Kd' dt N \<and>
   length (snd (Simulation_h Sp Tau K P Ki' Kd' dt N h)) = length h + 1 \<and>
   take (length h) (snd (Simulation_h Sp Tau K P Ki' Kd' dt N h)) = h \<and>
   fst (Simulation_twice Sp Tau K P Ki' Kd' dt N h)
     = snd (Simulation_twice Sp Tau K P Ki' Kd' dt N h) \<and>
   list_all2 same_sample (fst (fst (Simulation_twice Sp Tau K P Ki' Kd' dt N h)))
     (fst (snd (Simulation_twice Sp Tau K P Ki' Kd' dt N h))) \<and>
   list_all2 same_sample (snd (fst (Simulation_twice Sp Tau K P Ki' Kd' dt N h)))
     (snd (snd (Simulation_twice Sp Tau K P Ki' Kd' dt N h)))"
proof -
  from Simulation_h_heap [of Sp Tau K P Ki' Kd' dt N h] obtain pid'
    where 1: "fst (Simulation_h Sp Tau K P Ki' Kd' dt N h) = Simulation Sp Tau K P Ki' Kd' dt N"
      and 2: "snd (Simulation_h Sp Tau K P Ki' Kd' dt N h) = h @ [pid']"
    by blast
  have 3: "fst (Simulation_h Sp Tau K P Ki' Kd' dt N (h @ [pid']))
      = Simulation Sp Tau K P Ki' Kd' dt N"
    using Simulation_h_heap [of Sp Tau K P Ki' Kd' dt N "h @ [pid']"] by blast
  have tw: "Simulation_twice Sp Tau K P Ki' Kd' dt N h
      = (Simulation Sp Tau K P Ki' Kd' dt N, Simulation Sp Tau K P Ki' Kd' dt N)"
    using 1 2 3 by (simp add: Simulation_twice_def split_beta)
  have r: "list_all2 same_sample xs xs" for xs
    by (simp add: list_all2_same same_sample_refl)
  show ?thesis
    by (simp add: 1 2 tw r)
qed

text \<open>
  The comparison \<^verbatim>\<open>==\<close> alone does not hold at a NaN: with \<open>dt = 0\<close> the second output
  is NaN in both invocations and \<^verbatim>\<open>==\<close> is false of it and itself.
\<close>

lemma Simulation_nan_sample:
  "snd (Simulation (Fin 1) (Fin 1) (Fin 1) (Fin 1) (Fin 1) (Fin 0) (Fin 0) (Fin 2)) ! 1 = NaN \<and>
   \<not> f64_eq NaN NaN"
proof -
  have g: "go_int (Fin 2) = 2"
    by (simp add: trunc_real_def MinInt64_def MaxInt64_def)
  show ?thesis
    unfolding Simulation_def g
    by (simp add: Simulation_loop_step Simulation_loop_done NewPID_def Compute_def
        DynamicResponse_def f64_eval Let_def)
qed

section \<open>Zero gains\<close>

lemma within_bound_nonneg: "within_bound w x \<Longrightarrow> 0 \<le> w"
  unfolding within_bound_def by arith

lemma within_bound_finite: "within_bound w x \<Longrightarrow> is_finite x"
  by (simp add: within_bound_def)

lemma within_bound_mono: "within_bound a x \<Longrightarrow> a \<le> b \<Longrightarrow> within_bound b x"
  by (simp add: within_bound_def)

lemma within_bound_zero: "0 \<le> w \<Longrightarrow> is_zero x \<Longrightarrow> within_bound w x"
  by (cases x) (simp_all add: within_bound_def)

lemma round64_within:
  assumes "round_real w = w" "w \<le> MaxFloat64" "\<bar>x\<bar> \<le> w"
  shows "within_bound w (round64 x)"
proof -
  have "\<bar>round_real x\<bar> \<le> w" using assms(1,3) by (rule round_real_abs_le)
  then show ?thesis using assms(2) by (auto simp: round64_def Let_def within_bound_def)
qed

lemma within_add:
  assumes w: "round_real w = w" "w \<le> MaxFloat64"
    and x: "within_bound a x" and y: "within_bound b y" and le: "a + b \<le> w"
  shows "within_bound w (f64_add x y)"
proof -
  have "0 \<le> a" "0 \<le> b"
    using within_bound_nonneg [OF x] within_bound_nonneg [OF y] by simp_all
  with le have 0: "0 \<le> w" "0 \<le> a" "0 \<le> b" by simp_all
  have z: "within_bound w (Fin 0)" "within_bound w NegZero"
    using 0 by (simp_all add: within_bound_def)
  have r: "within_bound w (round64 z)" if "\<bar>z\<bar> \<le> w" for z
    using w that by (rule round64_within)
  show ?thesis
  proof (cases x)
    case (Fin p)
    with x have p: "\<bar>p\<bar> \<le> a" by (simp add: within_bound_def)
    show ?thesis
    proof (cases y)
      case (Fin q)
      with y have "\<bar>q\<bar> \<le> b" by (simp add: within_bound_def)
      with p le have "\<bar>p + q\<bar> \<le> w" by simp
      then show ?thesis using \<open>x = Fin p\<close> Fin z r by simp
    next
      case NegZero
      from p le 0 have "\<bar>p\<bar> \<le> w" by simp
      then show ?thesis using \<open>x = Fin p\<close> NegZero z r by simp
    qed (use y in \<open>simp_all add: within_bound_def\<close>)
  next
    case NegZero
    show ?thesis
    proof (cases y)
      case (Fin q)
      with y have "\<bar>q\<bar> \<le> b" by (simp add: within_bound_def)
      with le 0 have "\<bar>q\<bar> \<le> w" by simp
      then show ?thesis using \<open>x = NegZero\<close> Fin z r by simp
    next
      case NegZero
      then show ?thesis using \<open>x = NegZero\<close> z by simp
    qed (use y in \<open>simp_all add: within_bound_def\<close>)
  qed (use x in \<open>simp_all add: within_bound_def\<close>)
qed

lemma within_neg: "within_bound b x \<Longrightarrow> within_bound b (f64_neg x)"
  by (cases x) (auto simp: within_bound_def)

lemma within_sub:
  assumes "round_real w = w" "w \<le> MaxFloat64"
    and "within_bound a x" and "within_bound b y" and "a + b \<le> w"
  shows "within_bound w (f64_sub x y)"
  unfolding f64_sub_def using assms(1,2,3) within_neg [OF assms(4)] assms(5)
  by (rule within_add)

lemma within_mul:
  assumes w: "round_real w = w" "w \<le> MaxFloat64"
    and x: "within_bound a x" and y: "within_bound b y" and le: "a * b \<le> w"
  shows "within_bound w (f64_mul x y)"
proof -
  from x y have f: "is_finite x" "is_finite y" and v: "\<bar>val x\<bar> \<le> a" "\<bar>val y\<bar> \<le> b"
    by (simp_all add: within_bound_def)
  have "\<bar>val x * val y\<bar> = \<bar>val x\<bar> * \<bar>val y\<bar>" by (rule abs_mult)
  also have "\<dots> \<le> a * b" using v by (intro mult_mono) simp_all
  finally have p: "\<bar>val x * val y\<bar> \<le> w" using le by simp
  then have 0: "0 \<le> w" by simp
  have n: "\<not> is_nan x \<and> \<not> is_nan y \<and> \<not> is_inf x \<and> \<not> is_inf y"
    using f by (cases x; cases y; simp)
  show ?thesis
    unfolding f64_mul_def using n 0 round64_within [OF w p]
    by (simp add: f64_zero_def within_bound_def)
qed

lemma is_zero_mul: "is_zero g \<Longrightarrow> is_finite x \<Longrightarrow> is_zero (f64_mul g x)"
  by (cases g; cases x) (simp_all add: f64_mul_def f64_zero_def)

lemma is_zero_mul_right: "is_finite x \<Longrightarrow> is_zero z \<Longrightarrow> is_zero (f64_mul x z)"
  by (cases z; cases x) (simp_all add: f64_mul_def f64_zero_def)

lemma is_zero_div: "is_zero z \<Longrightarrow> is_finite d \<Longrightarrow> \<not> is_zero d \<Longrightarrow> is_zero (f64_div z d)"
  by (cases z; cases d) (simp_all add: f64_div_def f64_zero_def)

lemma is_zero_add: "is_zero a \<Longrightarrow> is_zero b \<Longrightarrow> is_zero (f64_add a b)"
  by (cases a; cases b) simp_all

lemma is_zero_sub: "is_zero a \<Longrightarrow> is_zero b \<Longrightarrow> is_zero (f64_sub a b)"
  by (cases a; cases b) (simp_all add: f64_sub_def)

lemma add_pos_zero: "is_zero a \<Longrightarrow> f64_add a (Fin 0) = Fin 0"
  by (cases a) simp_all

text \<open>
  With zero gains the output is a zero as long as the three values the gains multiply
  are finite: the error, the new integral and the difference of errors.
\<close>

lemma Compute_zero_gain:
  assumes g: "is_zero (Kp pid)" "is_zero (Ki pid)" "is_zero (Kd pid)"
    and e: "is_finite (f64_sub setpoint currentValue)"
    and i: "is_finite (f64_add (integral pid) (f64_mul (f64_sub setpoint currentValue) dt))"
    and d: "is_finite (f64_sub (f64_sub setpoint currentValue) (previouserror_pid pid))"
    and dt: "is_finite dt" "\<not> is_zero dt"
  shows "is_zero (fst (Compute pid setpoint currentValue dt))"
proof -
  have "is_zero (f64_mul (Kp pid) (f64_sub setpoint currentValue))"
    using g(1) e by (rule is_zero_mul)
  moreover have "is_zero (f64_mul (Ki pid)
      (f64_add (integral pid) (f64_mul (f64_sub setpoint currentValue) dt)))"
    using g(2) i by (rule is_zero_mul)
  moreover have "is_zero (f64_div (f64_mul (Kd pid)
      (f64_sub (f64_sub setpoint currentValue) (previouserror_pid pid))) dt)"
    using is_zero_mul [OF g(3) d] dt by (rule is_zero_div)
  ultimately show ?thesis
    by (simp add: Compute_def Let_def is_zero_add)
qed

lemma Compute_state:
  "Kp (snd (Compute pid setpoint currentValue dt)) = Kp pid"
  "Ki (snd (Compute pid setpoint currentValue dt)) = Ki pid"
  "Kd (snd (Compute pid setpoint currentValue dt)) = Kd pid"
  "integral (snd (Compute pid setpoint currentValue dt))
     = f64_add (integral pid) (f64_mul (f64_sub setpoint currentValue) dt)"
  "previouserror_pid (snd (Compute pid setpoint currentValue dt))
     = f64_sub setpoint currentValue"
  by (simp_all add: Compute_def Let_def)

lemma pow2_representable:
  "- 1074 \<le> k \<Longrightarrow> k \<le> 1023 \<Longrightarrow> round_real (2 powi k) = 2 powi k \<and> 2 powi k \<le> MaxFloat64"
  by (simp add: round_real_pow2 MaxFloat64_ge_pow)


lemma pow_representable:
  "n \<le> 1023 \<Longrightarrow> round_real (2 ^ n) = 2 ^ n \<and> (2::real) ^ n \<le> MaxFloat64"
  using round_real_pow2 [of "int n"] MaxFloat64_ge_pow [of "int n"] by simp

lemma Compute_zero_gain_bounded:
  assumes g: "is_zero (Kp pid)" "is_zero (Ki pid)" "is_zero (Kd pid)"
    and sp: "within_bound (2 ^ 400) setpoint" and cv: "within_bound (2 ^ 400) currentValue"
    and i: "within_bound (2 ^ 400) (integral pid)"
    and p: "within_bound (2 ^ 400) (previouserror_pid pid)"
    and dt: "within_bound (2 ^ 400) dt" "0 < val dt"
  shows "is_zero (fst (Compute pid setpoint currentValue dt))"
proof -
  note r = pow_representable [THEN conjunct1] pow_representable [THEN conjunct2]
  have e: "within_bound (2 ^ 401) (f64_sub setpoint currentValue)"
    by (rule within_sub [OF r(1) r(2) sp cv]) simp_all
  have m: "within_bound (2 ^ 801) (f64_mul (f64_sub setpoint currentValue) dt)"
    by (rule within_mul [OF r(1) r(2) e dt(1)]) (simp_all flip: power_add)
  have "within_bound (2 ^ 802)
      (f64_add (integral pid) (f64_mul (f64_sub setpoint currentValue) dt))"
    by (rule within_add [OF r(1) r(2) i m]) simp_all
  then have 1: "is_finite (f64_add (integral pid) (f64_mul (f64_sub setpoint currentValue) dt))"
    by (rule within_bound_finite)
  have "within_bound (2 ^ 402) (f64_sub (f64_sub setpoint currentValue) (previouserror_pid pid))"
    by (rule within_sub [OF r(1) r(2) e p]) simp_all
  then have 2: "is_finite (f64_sub (f64_sub setpoint currentValue) (previouserror_pid pid))"
    by (rule within_bound_finite)
  from dt(2) have 3: "\<not> is_zero dt" by (cases dt) simp_all
  show ?thesis
    using g within_bound_finite [OF e] 1 2 within_bound_finite [OF dt(1)] 3
    by (rule Compute_zero_gain)
qed

lemma Simulation_loop_invariant_k:
  assumes init: "I k pid ys T"
    and step: "\<And>k pid ys T. k \<le> n \<Longrightarrow> I k pid ys T \<Longrightarrow>
      I (k + 1) (snd (Compute pid Sp (last ys) dt))
        (ys @ [DynamicResponse (fst (Compute pid Sp (last ys) dt)) (last ys) dt Tau K])
        (T @ [f64_add (last T) dt])"
  shows "\<exists>k' pid'. I k' pid' (snd (Simulation_loop k n Sp Tau K dt pid ys T))
                     (fst (Simulation_loop k n Sp Tau K dt pid ys T))"
proof -
  have "nat (n + 1 - k) = m \<Longrightarrow> I k pid ys T \<Longrightarrow>
        \<exists>k' pid'. I k' pid' (snd (Simulation_loop k n Sp Tau K dt pid ys T))
                     (fst (Simulation_loop k n Sp Tau K dt pid ys T))" for m k pid ys T
  proof (induction m arbitrary: k pid ys T)
    case 0
    then have "\<not> k \<le> n" by simp
    with 0 show ?case by (auto simp: Simulation_loop_done)
  next
    case (Suc m)
    then have le: "k \<le> n" and m: "nat (n + 1 - (k + 1)) = m" by simp_all
    from Suc.IH [OF m step [OF le Suc.prems(2)]] show ?case
      by (simp add: Simulation_loop_step [OF le])
  qed
  with init show ?thesis by blast
qed

lemma Simulation_zero_gain:
  assumes g: "is_zero P" "is_zero Ki'" "is_zero Kd'"
    and Sp: "within_bound (2 ^ 400) Sp"
    and dt: "within_bound (2 ^ 400) dt" "0 < val dt"
    and K: "is_finite K" and q: "is_finite (f64_div dt Tau)"
    and n: "go_int N < 2 ^ 53"
  shows "snd (Simulation Sp Tau K P Ki' Kd' dt N) = replicate (nat (go_int N) + 1) (Fin 0)"
proof -
  note r = pow_representable [THEN conjunct1] pow_representable [THEN conjunct2]
  from dt(2) have dz: "\<not> is_zero dt" by (cases dt) simp_all
  define I where "I = (\<lambda>(k::int) (pid::PID) (ys::f64 list) (T::f64 list).
     1 \<le> k \<and> is_zero (Kp pid) \<and> is_zero (Ki pid) \<and> is_zero (Kd pid) \<and>
     ys \<noteq> [] \<and> (\<forall>y\<in>set ys. y = Fin 0) \<and>
     within_bound (of_int (k - 1) * 2 ^ 800) (integral pid) \<and>
     within_bound (2 ^ 400) (previouserror_pid pid))"
  have init: "I 1 (NewPID P Ki' Kd') [Fin 0] [Fin 0]"
    using g by (simp add: I_def NewPID_def within_bound_def)
  have step: "I (k + 1) (snd (Compute pid Sp (last ys) dt))
        (ys @ [DynamicResponse (fst (Compute pid Sp (last ys) dt)) (last ys) dt Tau K])
        (T @ [f64_add (last T) dt])"
    if le: "k \<le> go_int N" and inv: "I k pid ys T" for k pid ys T
  proof -
    from inv have k: "1 \<le> k"
      and gz: "is_zero (Kp pid)" "is_zero (Ki pid)" "is_zero (Kd pid)"
      and ys: "ys \<noteq> []" "\<forall>y\<in>set ys. y = Fin 0"
      and i: "within_bound (of_int (k - 1) * 2 ^ 800) (integral pid)"
      and p: "within_bound (2 ^ 400) (previouserror_pid pid)"
      by (simp_all add: I_def)
    from ys have l: "last ys = Fin 0" using last_in_set by blast
    have z: "within_bound 0 (Fin 0)" by (simp add: within_bound_def)
    have e: "within_bound (2 ^ 400) (f64_sub Sp (Fin 0))"
      by (rule within_sub [OF r(1) r(2) Sp z]) simp_all
    have m: "within_bound (2 ^ 800) (f64_mul (f64_sub Sp (Fin 0)) dt)"
      by (rule within_mul [OF r(1) r(2) e dt(1)]) (simp_all flip: power_add)
    from k le n have kb: "\<bar>k\<bar> < 2 ^ 53" by simp
    have "real_of_int k * 2 ^ 800 = of_int k * 2 powi 800" by simp
    then have rk: "round_real (of_int k * 2 ^ 800) = of_int k * 2 ^ 800"
      using kb by (rule round_real_dyadic) simp
    have "real_of_int k \<le> 2 ^ 53" using kb by (simp flip: of_int_le_iff)
    then have "real_of_int k * 2 ^ 800 \<le> 2 ^ 53 * 2 ^ 800"
      by (intro mult_right_mono) simp_all
    also have "\<dots> = 2 ^ 853" by (simp flip: power_add)
    also have "\<dots> \<le> MaxFloat64" by (rule r(2)) simp
    finally have mk: "real_of_int k * 2 ^ 800 \<le> MaxFloat64" .
    have i': "within_bound (of_int k * 2 ^ 800)
        (f64_add (integral pid) (f64_mul (f64_sub Sp (Fin 0)) dt))"
      by (rule within_add [OF rk mk i m]) (simp add: algebra_simps)
    have d: "within_bound (2 ^ 401) (f64_sub (f64_sub Sp (Fin 0)) (previouserror_pid pid))"
      by (rule within_sub [OF r(1) r(2) e p]) simp_all
    have out: "is_zero (fst (Compute pid Sp (Fin 0) dt))"
      using gz within_bound_finite [OF e] within_bound_finite [OF i']
        within_bound_finite [OF d] within_bound_finite [OF dt(1)] dz
      by (rule Compute_zero_gain)
    have "is_zero (f64_mul K (fst (Compute pid Sp (Fin 0) dt)))"
      using K out by (rule is_zero_mul_right)
    then have "is_zero (f64_sub (f64_mul K (fst (Compute pid Sp (Fin 0) dt))) (Fin 0))"
      by (rule is_zero_sub) simp
    with q have "is_zero (f64_mul (f64_div dt Tau)
        (f64_sub (f64_mul K (fst (Compute pid Sp (Fin 0) dt))) (Fin 0)))"
      by (rule is_zero_mul_right)
    then have y: "DynamicResponse (fst (Compute pid Sp (Fin 0) dt)) (Fin 0) dt Tau K = Fin 0"
      unfolding DynamicResponse_def by (rule add_pos_zero)
    show ?thesis
      unfolding I_def l y Compute_state
      using k gz ys i' e by simp
  qed
  from Simulation_loop_invariant_k [of I, OF init step]
  obtain k' pid' where "I k' pid' (snd (Simulation Sp Tau K P Ki' Kd' dt N))
      (fst (Simulation Sp Tau K P Ki' Kd' dt N))"
    unfolding Simulation_def by blast
  then have "\<forall>y\<in>set (snd (Simulation Sp Tau K P Ki' Kd' dt N)). y = Fin 0"
    by (simp add: I_def)
  moreover have "length (snd (Simulation Sp Tau K P Ki' Kd' dt N)) = nat (go_int N) + 1"
    using Simulation_shape [of Sp Tau K P Ki' Kd' dt N] by simp
  ultimately show ?thesis
    by (intro replicate_eqI) simp_all
qed

text \<open>
  Claim C8, as the claim states it, fails. With zero gains and a controller in its
  initial state, the setpoint \<open>2^1023\<close> and the current value \<open>- 2^1023\<close> are finite
  but their difference overflows to \<open>+Inf\<close>, and \<open>0 * Inf\<close> is NaN: \<^verbatim>\<open>Compute\<close> returns
  NaN. With the setpoint \<open>2^1023\<close> and \<open>dt = 1\<close> the integral overflows in the second
  pass of \<^verbatim>\<open>Simulation\<close> and the outputs are \<open>0, 0, NaN, NaN\<close>. And a controller whose
  integral is already \<open>+Inf\<close> returns NaN for the setpoint 1 and the current value 0.
\<close>

theorem zero_gain_counterexample:
  "fst (Compute (NewPID (Fin 0) (Fin 0) (Fin 0)) (Fin (2 ^ 1023)) (Fin (- (2 ^ 1023))) (Fin 1))
     = NaN \<and>
   snd (Simulation (Fin (2 ^ 1023)) (Fin 1) (Fin 1) (Fin 0) (Fin 0) (Fin 0) (Fin 1) (Fin 3))
     = [Fin 0, Fin 0, NaN, NaN] \<and>
   fst (Compute ((NewPID (Fin 0) (Fin 0) (Fin 0))\<lparr>integral := PInf\<rparr>) (Fin 1) (Fin 0) (Fin 1))
     = NaN"
proof -
  define S :: real where "S = 2 ^ 1023"
  have pos: "0 < S" by (simp add: S_def)
  have "S = 2 powi 1023" by (simp add: S_def)
  then have rS: "round64 S = Fin S" using round64_pow2 [of 1023] by simp
  have "2 powi 1024 \<le> S + S" by (simp add: S_def)
  then have rSS: "round64 (S + S) = PInf" by (rule round64_overflow)
  have g: "go_int (Fin 3) = 3" by (simp add: trunc_real_def MinInt64_def MaxInt64_def)
  have 1: "fst (Compute (NewPID (Fin 0) (Fin 0) (Fin 0)) (Fin S) (Fin (- S)) (Fin 1)) = NaN"
    using pos rSS by (simp add: Compute_def NewPID_def Let_def f64_eval)
  have 2: "snd (Simulation (Fin S) (Fin 1) (Fin 1) (Fin 0) (Fin 0) (Fin 0) (Fin 1) (Fin 3))
     = [Fin 0, Fin 0, NaN, NaN]"
    unfolding Simulation_def g using pos rS rSS
    by (simp add: Simulation_loop_step Simulation_loop_done NewPID_def Compute_def
        DynamicResponse_def f64_eval Let_def)
  have 3: "fst (Compute ((NewPID (Fin 0) (Fin 0) (Fin 0))\<lparr>integral := PInf\<rparr>) (Fin 1) (Fin 0)
      (Fin 1)) = NaN"
    by (simp add: Compute_def NewPID_def Let_def f64_eval)
  from 1 2 3 show ?thesis unfolding S_def by (intro conjI)
qed

text \<open>
  Claim C8, amended. Let the three gains be zero (of either sign). If the setpoint, the
  current value, the integral and the previous error of the controller and \<open>dt\<close> are
  finite and of magnitude at most \<open>2^400\<close>, and \<open>dt > 0\<close>, then \<^verbatim>\<open>Compute\<close> returns a
  zero (\<open>+0\<close> or \<open>-0\<close>, both \<^verbatim>\<open>== 0\<close>). And if the setpoint and \<open>dt\<close> are finite and of
  magnitude at most \<open>2^400\<close>, \<open>dt > 0\<close>, \<open>K\<close> is finite, the quotient \<open>dt / Tau\<close> is
  finite (so \<open>Tau\<close> is neither 0 nor NaN) and \<open>int(N) < 2^53\<close>, then every output of
  \<^verbatim>\<open>Simulation\<close> is \<open>+0\<close>.
\<close>

theorem zero_gain:
  "(is_zero (Kp pid) \<and> is_zero (Ki pid) \<and> is_zero (Kd pid) \<and>
    within_bound (2 ^ 400) setpoint \<and> within_bound (2 ^ 400) currentValue \<and>
    within_bound (2 ^ 400) (integral pid) \<and> within_bound (2 ^ 400) (previouserror_pid pid) \<and>
    within_bound (2 ^ 400) dt \<and> 0 < val dt
    \<longrightarrow> is_zero (fst (Compute pid setpoint currentValue dt))) \<and>
   (is_zero P \<and> is_zero Ki' \<and> is_zero Kd' \<and>
    within_bound (2 ^ 400) Sp \<and> within_bound (2 ^ 400) dt' \<and> 0 < val dt' \<and>
    is_finite K \<and> is_finite (f64_div dt' Tau) \<and> go_int N < 2 ^ 53
    \<longrightarrow> snd (Simulation Sp Tau K P Ki' Kd' dt' N) = replicate (nat (go_int N) + 1) (Fin 0))"
  by (intro conjI impI; (elim conjE)?) (rule Compute_zero_gain_bounded Simulation_zero_gain; assumption)+

theorem zero_gain_witness:
  "within_bound (2 ^ 400) (Fin 10) \<and> within_bound (2 ^ 400) (Fin 1) \<and>
   is_finite (f64_div (Fin 1) (Fin 1)) \<and> go_int (Fin 2) < 2 ^ 53 \<and>
   is_zero (fst (Compute \<lparr>Kp = Fin 0, Ki = Fin 0, Kd = NegZero, integral = Fin 5,
        previouserror_pid = Fin 2\<rparr> (Fin 3) (Fin 1) (Fin 2))) \<and>
   snd (Simulation (Fin 10) (Fin 1) (Fin 1) (Fin 0) (Fin 0) (Fin 0) (Fin 1) (Fin 2))
     = [Fin 0, Fin 0, Fin 0]"
proof -
  have g: "go_int (Fin 2) = 2" by (simp add: trunc_real_def MinInt64_def MaxInt64_def)
  have b: "within_bound (2 ^ 400) (Fin 1)" "within_bound (2 ^ 400) (Fin 2)"
    "within_bound (2 ^ 400) (Fin 3)" "within_bound (2 ^ 400) (Fin 5)"
    "within_bound (2 ^ 400) (Fin 10)"
    by (simp_all add: within_bound_def)
  have q: "is_finite (f64_div (Fin 1) (Fin 1))" by (simp add: f64_eval)
  from zero_gain [where pid = "\<lparr>Kp = Fin 0, Ki = Fin 0, Kd = NegZero, integral = Fin 5,
        previouserror_pid = Fin 2\<rparr>" and setpoint = "Fin 3" and currentValue = "Fin 1"
      and dt = "Fin 2" and P = "Fin 0" and Ki' = "Fin 0" and Kd' = "Fin 0" and Sp = "Fin 10"
      and dt' = "Fin 1" and K = "Fin 1" and Tau = "Fin 1" and N = "Fin 2"]
  show ?thesis using g b q by (simp add: eval_nat_numeral)
qed

end
